theory Spec2Isabelle
  imports Main "HOL-Library.AList"
begin

section \<open>Python values and exceptions\<close>

text \<open>
  Every modelled function returns \<open>pyexn + 'a\<close>: \<open>Inl\<close> is an exception that leaves
  the function, \<open>Inr\<close> its return value. All exceptions listed are subclasses of
  Python's \<open>Exception\<close>. \<open>NotModelled\<close> is not a Python exception: it marks the
  two places where the decoder \<open>json_loads\<close> below leaves the model.
\<close>

datatype pyexn = IndexError | KeyError | TypeError | AttributeError
  | JSONDecodeError | RecursionError | NotModelled

text \<open>List subscription \<open>xs[i]\<close>; a negative index counts from the end of the list.\<close>

definition py_index :: "'a list \<Rightarrow> int \<Rightarrow> pyexn + 'a" where
  "py_index xs i =
     (if 0 \<le> i \<and> i < int (length xs) then Inr (xs ! nat i)
      else if i < 0 \<and> - int (length xs) \<le> i then Inr (xs ! nat (int (length xs) + i))
      else Inl IndexError)"

text \<open>\<open>try: ... except Exception as e: return h(e)\<close>.\<close>

definition except_Exception :: "pyexn + 'a \<Rightarrow> (pyexn \<Rightarrow> 'a) \<Rightarrow> pyexn + 'a" where
  "except_Exception r h = (case r of Inl e \<Rightarrow> Inr (h e) | Inr v \<Rightarrow> Inr v)"

section \<open>Strings\<close>

text \<open>
  A Python \<open>str\<close> is modelled as a list of 8-bit characters, read as the code points
  U+0000 to U+00FF. On these, the characters that \<open>str.strip()\<close> removes and that the
  pattern \<open>\s\<close> matches are the twelve below, and \<open>\d\<close> matches \<open>0\<close> to \<open>9\<close> only.
\<close>

definition is_space :: "char \<Rightarrow> bool" where
  "is_space c = (c \<in> set [CHR 0x09, CHR 0x0A, CHR 0x0B, CHR 0x0C, CHR 0x0D, CHR 0x1C,
                           CHR 0x1D, CHR 0x1E, CHR 0x1F, CHR 0x20, CHR 0x85, CHR 0xA0])"

definition strip :: "string \<Rightarrow> string" where
  "strip s = rev (dropWhile is_space (rev (dropWhile is_space s)))"

definition startswith :: "string \<Rightarrow> string \<Rightarrow> bool" where
  "startswith s p = (take (length p) s = p)"

text \<open>The test \<open>p in s\<close> between two strings.\<close>

fun contains_sub :: "string \<Rightarrow> string \<Rightarrow> bool" where
  "contains_sub [] p = (p = [])"
| "contains_sub (c # cs) p = (startswith (c # cs) p \<or> contains_sub cs p)"

definition is_digit :: "char \<Rightarrow> bool" where
  "is_digit c = (c \<in> set ''0123456789'')"

definition digit_char :: "nat \<Rightarrow> char" where
  "digit_char d = ''0123456789'' ! d"

definition digit_val :: "char \<Rightarrow> nat" where
  "digit_val c = of_char c - 48"

text \<open>
  \<open>str(i)\<close> and the f-string field \<open>{i}\<close> for an integer, and \<open>int(ds)\<close> for a run of
  decimal digits. Python integers are unbounded; CPython's configurable limit on the
  length of the conversion (4300 digits by default) is not modelled.
\<close>

fun digits_of_nat :: "nat \<Rightarrow> string" where
  "digits_of_nat n =
     (if n < 10 then [digit_char n] else digits_of_nat (n div 10) @ [digit_char (n mod 10)])"

declare digits_of_nat.simps [simp del]

definition str_int :: "int \<Rightarrow> string" where
  "str_int i = (if i < 0 then CHR ''-'' # digits_of_nat (nat (- i)) else digits_of_nat (nat i))"

definition int_of_digits :: "string \<Rightarrow> int" where
  "int_of_digits ds = int (foldl (\<lambda>a c. 10 * a + digit_val c) 0 ds)"

section \<open>Decoded JSON values and the operations the scripts apply to them\<close>

text \<open>
  A finite float is kept as a decimal number \<open>m * 10 ^ e\<close> of the same value class:
  it is zero exactly when \<open>m = 0\<close>. The three non-finite values that Python's decoder
  produces are separate. No operation of the scripts looks at a float beyond its
  truth value. An object keeps its members in insertion order; the first pair with
  a given key is the member.
\<close>

datatype pyfloat = Dec int int | NaN | Infinity | NegInfinity

datatype json = JNull | JBool bool | JInt int | JFloat pyfloat | JStr string
  | JArr "json list" | JObj "(string \<times> json) list"

fun truthy :: "json \<Rightarrow> bool" where
  "truthy JNull = False"
| "truthy (JBool b) = b"
| "truthy (JInt i) = (i \<noteq> 0)"
| "truthy (JFloat (Dec m e)) = (m \<noteq> 0)"
| "truthy (JFloat _) = True"
| "truthy (JStr s) = (s \<noteq> [])"
| "truthy (JArr xs) = (xs \<noteq> [])"
| "truthy (JObj kvs) = (kvs \<noteq> [])"

text \<open>\<open>k in x\<close> for a string \<open>k\<close>.\<close>

fun py_in :: "string \<Rightarrow> json \<Rightarrow> pyexn + bool" where
  "py_in k (JObj kvs) = Inr (k \<in> set (map fst kvs))"
| "py_in k (JArr xs) = Inr (JStr k \<in> set xs)"
| "py_in k (JStr s) = Inr (contains_sub s k)"
| "py_in k _ = Inl TypeError"

text \<open>\<open>x[k]\<close> for a string \<open>k\<close>, and \<open>x[0]\<close>.\<close>

fun py_getitem :: "json \<Rightarrow> string \<Rightarrow> pyexn + json" where
  "py_getitem (JObj kvs) k = (case map_of kvs k of Some v \<Rightarrow> Inr v | None \<Rightarrow> Inl KeyError)"
| "py_getitem _ k = Inl TypeError"

fun py_getitem0 :: "json \<Rightarrow> pyexn + json" where
  "py_getitem0 (JArr xs) = py_index xs 0"
| "py_getitem0 (JStr s) = (case s of [] \<Rightarrow> Inl IndexError | c # _ \<Rightarrow> Inr (JStr [c]))"
| "py_getitem0 (JObj kvs) = Inl KeyError"
| "py_getitem0 _ = Inl TypeError"

fun py_len :: "json \<Rightarrow> pyexn + nat" where
  "py_len (JArr xs) = Inr (length xs)"
| "py_len (JStr s) = Inr (length s)"
| "py_len (JObj kvs) = Inr (length (remdups (map fst kvs)))"
| "py_len _ = Inl TypeError"

text \<open>\<open>x.get(k, default)\<close>; only a dict has the method.\<close>

fun py_get :: "json \<Rightarrow> string \<Rightarrow> json \<Rightarrow> pyexn + json" where
  "py_get (JObj kvs) k dflt = Inr (case map_of kvs k of Some v \<Rightarrow> v | None \<Rightarrow> dflt)"
| "py_get _ k dflt = Inl AttributeError"

text \<open>
  The guard \<open>k in x and x[k]\<close> followed by the assignment \<open>y = x[k]\<close>: \<open>Some y\<close> when
  the guard holds, \<open>None\<close> when it does not.
\<close>

definition get_truthy :: "string \<Rightarrow> json \<Rightarrow> pyexn + json option" where
  "get_truthy k x =
     (case py_in k x of
        Inl e \<Rightarrow> Inl e
      | Inr present \<Rightarrow>
          if present then
            (case py_getitem x k of
               Inl e \<Rightarrow> Inl e
             | Inr v \<Rightarrow> Inr (if truthy v then Some v else None))
          else Inr None)"

text \<open>Nesting of \<open>if\<close> blocks: the inner block runs only when the outer guard held.\<close>

definition and_then :: "pyexn + 'a option \<Rightarrow> ('a \<Rightarrow> pyexn + 'b option) \<Rightarrow> pyexn + 'b option" where
  "and_then r f = (case r of Inl e \<Rightarrow> Inl e | Inr None \<Rightarrow> Inr None | Inr (Some v) \<Rightarrow> f v)"

section \<open>Identifier codec\<close>

text \<open>
  \<open>re.search(lit + r'(\d+)$', s)\<close> for a literal prefix \<open>lit\<close>: the result is group 1 of
  the leftmost match. Without \<open>re.MULTILINE\<close>, \<open>$\<close> matches at the end of the string
  and just before a newline that ends the string.
\<close>

definition match_digits_end :: "string \<Rightarrow> string option" where
  "match_digits_end s =
     (let ds = takeWhile is_digit s; r = dropWhile is_digit s
      in if ds \<noteq> [] \<and> (r = [] \<or> r = [CHR 0x0A]) then Some ds else None)"

definition match_line_at :: "string \<Rightarrow> string \<Rightarrow> string option" where
  "match_line_at lit s =
     (if startswith s lit then match_digits_end (drop (length lit) s) else None)"

fun search_line :: "string \<Rightarrow> string \<Rightarrow> string option" where
  "search_line lit [] = match_line_at lit []"
| "search_line lit (c # cs) =
     (case match_line_at lit (c # cs) of
        Some g \<Rightarrow> Some g
      | None \<Rightarrow> search_line lit cs)"

text \<open>The patterns of a list are tried in order; the first one that matches decides.\<close>

fun search_patterns :: "string list \<Rightarrow> string \<Rightarrow> string option" where
  "search_patterns [] s = None"
| "search_patterns (lit # lits) s =
     (case search_line lit s of
        Some g \<Rightarrow> Some g
      | None \<Rightarrow> search_patterns lits s)"

text \<open>batch\_processWithInput.py, line 246: the identifier written for each request.\<close>

definition custom_id :: "string \<Rightarrow> string \<Rightarrow> int \<Rightarrow> string" where
  "custom_id original_safe_name field_name global_idx =
     original_safe_name @ ''_'' @ field_name @ ''_line_'' @ str_int global_idx"

text \<open>
  \<open>extract_line_number_from_custom_id\<close> of the three scripts. The argument is whatever
  \<open>result.get('custom_id', ...)\<close> returned; \<open>re.search\<close> raises \<open>TypeError\<close> on a value
  that is not a string, and the handler \<open>except (ValueError, AttributeError)\<close> does not
  catch it.
\<close>

definition line_number_by :: "string list \<Rightarrow> json \<Rightarrow> pyexn + int option" where
  "line_number_by patterns cid =
     (case cid of
        JStr s \<Rightarrow> Inr (map_option int_of_digits (search_patterns patterns s))
      | _ \<Rightarrow> Inl TypeError)"

definition patterns_merged_results :: "string list" where
  "patterns_merged_results = [''_line_'']"

definition patterns_instructOutput :: "string list" where
  "patterns_instructOutput = [''_line_'', ''alpaca_data_line_'', ''line_'']"

definition patterns_mismatch :: "string list" where
  "patterns_mismatch = [''_line_'', ''alpaca_data_line_'', ''line_'', ''data_line_'']"

definition extract_line_number_from_custom_id_merged_results :: "json \<Rightarrow> pyexn + int option" where
  "extract_line_number_from_custom_id_merged_results = line_number_by patterns_merged_results"

definition extract_line_number_from_custom_id_instructOutput :: "json \<Rightarrow> pyexn + int option" where
  "extract_line_number_from_custom_id_instructOutput = line_number_by patterns_instructOutput"

definition extract_line_number_from_custom_id_mismatch :: "json \<Rightarrow> pyexn + int option" where
  "extract_line_number_from_custom_id_mismatch = line_number_by patterns_mismatch"

section \<open>The code-fence patterns\<close>

text \<open>
  \<open>re.search(r'```json\s*\n(.*?)\n```', s, re.DOTALL)\<close> (merged\_results.py and the
  fallback of instructOutput.py) and the variant \<open>r'```?json\s*\n(.*?)\n```?'\<close>
  (mismatch.py and instructOutput.py), whose third backtick is optional on both
  sides. The functions follow the backtracking matcher: the leftmost start wins; at
  a start, \<open>\s*\<close> first takes the whole run of whitespace and gives characters back
  one by one until the next character is a newline; \<open>(.*?)\<close> then stops at the first
  closing fence. The result is group 1.
\<close>

fun find_close :: "string \<Rightarrow> string \<Rightarrow> string option" where
  "find_close close [] = (if close = [] then Some [] else None)"
| "find_close close (c # cs) =
     (if startswith (c # cs) close then Some []
      else map_option ((#) c) (find_close close cs))"

definition newline_at :: "string \<Rightarrow> string \<Rightarrow> nat \<Rightarrow> string option" where
  "newline_at close t k =
     (if k < length t \<and> t ! k = CHR 0x0A then find_close close (drop (Suc k) t) else None)"

fun give_back :: "string \<Rightarrow> string \<Rightarrow> nat \<Rightarrow> string option" where
  "give_back close t 0 = newline_at close t 0"
| "give_back close t (Suc k) =
     (case newline_at close t (Suc k) of
        Some g \<Rightarrow> Some g
      | None \<Rightarrow> give_back close t k)"

definition fence_rest :: "string \<Rightarrow> string \<Rightarrow> string option" where
  "fence_rest close t = give_back close t (length (takeWhile is_space t))"

definition fence_at :: "bool \<Rightarrow> string \<Rightarrow> string option" where
  "fence_at optional_tick s =
     (if startswith s ''``'' then
        let r = drop 2 s in
        if startswith r ''`'' then
          (if startswith (drop 1 r) ''json''
           then fence_rest (if optional_tick then [CHR 0x0A, CHR ''`'', CHR ''`'']
                            else [CHR 0x0A, CHR ''`'', CHR ''`'', CHR ''`''])
                  (drop 5 r)
           else None)
        else if optional_tick \<and> startswith r ''json''
          then fence_rest [CHR 0x0A, CHR ''`'', CHR ''`''] (drop 4 r)
        else None
      else None)"

fun fence_search :: "bool \<Rightarrow> string \<Rightarrow> string option" where
  "fence_search optional_tick [] = fence_at optional_tick []"
| "fence_search optional_tick (c # cs) =
     (case fence_at optional_tick (c # cs) of
        Some g \<Rightarrow> Some g
      | None \<Rightarrow> fence_search optional_tick cs)"

section \<open>Payload extraction (\<open>extract_text_from_result\<close>)\<close>

text \<open>
  \<open>json.loads\<close> belongs to Python's standard library. The extractors take it as the
  parameter \<open>loads\<close>, so that what is proved of them holds for every decoder;
  \<open>Inl JSONDecodeError\<close> is the one failure the inner handler catches.
\<close>

text \<open>\<open>x.strip()\<close> on a decoded value: only a string has the method.\<close>

definition py_strip :: "json \<Rightarrow> pyexn + string" where
  "py_strip x = (case x of JStr v \<Rightarrow> Inr (strip v) | _ \<Rightarrow> Inl AttributeError)"

text \<open>
  \<open>if isinstance(parsed_json, dict) and 'text' in parsed_json:
  return parsed_json['text'].strip()\<close>; \<open>None\<close> when the guard fails.
\<close>

definition text_member :: "json \<Rightarrow> (pyexn + string) option" where
  "text_member parsed_json =
     (case parsed_json of
        JObj kvs \<Rightarrow> (case map_of kvs ''text'' of None \<Rightarrow> None | Some v \<Rightarrow> Some (py_strip v))
      | _ \<Rightarrow> None)"

text \<open>The block \<open>if json_match: ...\<close>; \<open>None\<close> when control leaves it without returning.\<close>

definition fenced_text :: "(string \<Rightarrow> pyexn + json) \<Rightarrow> string option \<Rightarrow> (pyexn + string) option" where
  "fenced_text loads json_match =
     (case json_match of
        None \<Rightarrow> None
      | Some g \<Rightarrow>
          (case loads (strip g) of
             Inl e \<Rightarrow> Some (Inl e)
           | Inr parsed_json \<Rightarrow> text_member parsed_json))"

text \<open>
  Decoding of the whole text, and the \<open>return text_content.strip()\<close> that follows the
  \<open>try\<close> statement.
\<close>

definition whole_text :: "(string \<Rightarrow> pyexn + json) \<Rightarrow> string \<Rightarrow> string \<Rightarrow> pyexn + string" where
  "whole_text loads cleaned_content text_content =
     (case loads cleaned_content of
        Inl e \<Rightarrow> Inl e
      | Inr parsed_json \<Rightarrow>
          (case text_member parsed_json of
             Some r \<Rightarrow> r
           | None \<Rightarrow> Inr (strip text_content)))"

text \<open>\<open>except json.JSONDecodeError: return text_content.strip()\<close>.\<close>

definition except_JSONDecodeError :: "pyexn + string \<Rightarrow> string \<Rightarrow> pyexn + string" where
  "except_JSONDecodeError r text_content =
     (case r of
        Inl e \<Rightarrow> if e = JSONDecodeError then Inr (strip text_content) else Inl e
      | Inr s \<Rightarrow> Inr s)"

text \<open>
  The \<open>try\<close> statement applied to the content found under
  \<open>response.body.choices[0].message.content\<close> (mismatch.py lines 34-57,
  instructOutput.py lines 33-57).
\<close>

definition cleaned :: "string \<Rightarrow> string" where
  "cleaned text_content =
     (let cleaned_content = strip text_content
      in if startswith cleaned_content [CHR ''j'', CHR ''s'', CHR ''o'', CHR ''n'', CHR 0x0A]
         then drop 5 cleaned_content else cleaned_content)"

definition parse_response_content :: "(string \<Rightarrow> pyexn + json) \<Rightarrow> json \<Rightarrow> pyexn + string" where
  "parse_response_content loads text_content =
     (case text_content of
        JStr t \<Rightarrow>
          except_JSONDecodeError
            (case fenced_text loads (fence_search True t) of
               Some r \<Rightarrow> r
             | None \<Rightarrow> whole_text loads (cleaned t) t)
            t
      | _ \<Rightarrow> Inl TypeError)"

text \<open>
  The \<open>try\<close> statement applied to the text found under
  \<open>result.message.content[0].text\<close> (merged\_results.py lines 35-54, instructOutput.py
  lines 72-91).
\<close>

definition parse_result_content :: "(string \<Rightarrow> pyexn + json) \<Rightarrow> json \<Rightarrow> pyexn + string" where
  "parse_result_content loads text_content =
     (case text_content of
        JStr t \<Rightarrow>
          except_JSONDecodeError
            (case fenced_text loads (fence_search False t) of
               Some r \<Rightarrow> r
             | None \<Rightarrow> whole_text loads t t)
            t
      | _ \<Rightarrow> Inl TypeError)"

text \<open>The nested guards that lead to the content, for each of the two envelope shapes.\<close>

definition response_content :: "json \<Rightarrow> pyexn + json option" where
  "response_content result_entry =
     and_then (get_truthy ''response'' result_entry) (\<lambda>response_data.
     and_then (get_truthy ''body'' response_data) (\<lambda>body.
     and_then (get_truthy ''choices'' body) (\<lambda>choices.
       case py_len choices of
         Inl e \<Rightarrow> Inl e
       | Inr n \<Rightarrow>
           if n > 0 then
             (case py_getitem0 choices of
                Inl e \<Rightarrow> Inl e
              | Inr choice \<Rightarrow>
                  and_then (get_truthy ''message'' choice) (\<lambda>message.
                    get_truthy ''content'' message))
           else Inr None)))"

definition first_text :: "json \<Rightarrow> pyexn + json option" where
  "first_text content =
     (case content of
        JArr xs \<Rightarrow>
          if length xs > 0 then
            (case py_index xs 0 of
               Inl e \<Rightarrow> Inl e
             | Inr first_content \<Rightarrow>
                 (case first_content of
                    JObj kvs \<Rightarrow> Inr (map_of kvs ''text'')
                  | _ \<Rightarrow> Inr None))
          else Inr None
      | _ \<Rightarrow> Inr None)"

definition result_content :: "json \<Rightarrow> pyexn + json option" where
  "result_content result_entry =
     and_then (get_truthy ''result'' result_entry) (\<lambda>result_data.
     and_then (get_truthy ''message'' result_data) (\<lambda>message.
     and_then (get_truthy ''content'' message) first_text))"

text \<open>
  The body of the outer \<open>try\<close> statement of each script, and the function with its
  handler. merged\_results.py knows the \<open>result\<close> shape only and turns any exception
  into \<open>""\<close>.
\<close>

definition try_body_merged_results :: "(string \<Rightarrow> pyexn + json) \<Rightarrow> json \<Rightarrow> pyexn + string" where
  "try_body_merged_results loads result_entry =
     (case result_content result_entry of
        Inl e \<Rightarrow> Inl e
      | Inr None \<Rightarrow> Inr []
      | Inr (Some text_content) \<Rightarrow> parse_result_content loads text_content)"

definition extract_text_from_result_merged_results ::
  "(string \<Rightarrow> pyexn + json) \<Rightarrow> json \<Rightarrow> pyexn + string" where
  "extract_text_from_result_merged_results loads result_entry =
     except_Exception (try_body_merged_results loads result_entry) (\<lambda>e. [])"

text \<open>
  mismatch.py knows the \<open>response\<close> shape only; an exception \<open>e\<close> gives
  \<open>"ERROR_EXTRACTING: " + str(e)\<close>. The message \<open>str(e)\<close> is CPython's and is the
  parameter \<open>msg\<close>.
\<close>

definition try_body_mismatch :: "(string \<Rightarrow> pyexn + json) \<Rightarrow> json \<Rightarrow> pyexn + string" where
  "try_body_mismatch loads result_entry =
     (case response_content result_entry of
        Inl e \<Rightarrow> Inl e
      | Inr None \<Rightarrow> Inr []
      | Inr (Some text_content) \<Rightarrow> parse_response_content loads text_content)"

definition extract_text_from_result_mismatch ::
  "(string \<Rightarrow> pyexn + json) \<Rightarrow> (pyexn \<Rightarrow> string) \<Rightarrow> json \<Rightarrow> pyexn + string" where
  "extract_text_from_result_mismatch loads msg result_entry =
     except_Exception (try_body_mismatch loads result_entry)
       (\<lambda>e. ''ERROR_EXTRACTING: '' @ msg e)"

text \<open>instructOutput.py tries the \<open>response\<close> shape first and the \<open>result\<close> shape as
  fallback; any exception gives \<open>""\<close>.\<close>

definition try_body_instructOutput :: "(string \<Rightarrow> pyexn + json) \<Rightarrow> json \<Rightarrow> pyexn + string" where
  "try_body_instructOutput loads result_entry =
     (case response_content result_entry of
        Inl e \<Rightarrow> Inl e
      | Inr (Some text_content) \<Rightarrow> parse_response_content loads text_content
      | Inr None \<Rightarrow>
          (case result_content result_entry of
             Inl e \<Rightarrow> Inl e
           | Inr None \<Rightarrow> Inr []
           | Inr (Some text_content) \<Rightarrow> parse_result_content loads text_content))"

definition extract_text_from_result_instructOutput ::
  "(string \<Rightarrow> pyexn + json) \<Rightarrow> json \<Rightarrow> pyexn + string" where
  "extract_text_from_result_instructOutput loads result_entry =
     except_Exception (try_body_instructOutput loads result_entry) (\<lambda>e. [])"

section \<open>A decoder for JSON documents\<close>

text \<open>
  \<open>json_loads\<close> stands for \<open>json.loads\<close> applied to a \<open>str\<close> wherever a statement
  is evaluated on a concrete document; the general statements take the decoder as a
  parameter and do not depend on it. It follows the grammar that \<open>json.loads\<close>
  accepts: the four whitespace characters, objects (of a repeated key the last value
  is kept), arrays, strings in strict mode, numbers, \<open>true\<close>, \<open>false\<close>, \<open>null\<close>,
  \<open>NaN\<close>, \<open>Infinity\<close> and \<open>-Infinity\<close>. A float literal that rounds to zero or
  to an infinity as a binary double is decoded to that value. Three things are
  outside it: an escape \<open>\uXXXX\<close> above U+00FF denotes a character that the 8-bit
  strings do not have, and the answer is the marker \<open>NotModelled\<close> (which the
  callers treat like any other exception, so such a document is outside the model);
  the same marker is the answer when the recursion bound runs out; and CPython's
  configurable limit on the number of digits of an integer literal is not modelled.
\<close>

datatype 'a scan = Ok 'a string | Bad | Beyond

definition is_json_ws :: "char \<Rightarrow> bool" where
  "is_json_ws c = (c \<in> set [CHR 0x20, CHR 0x09, CHR 0x0A, CHR 0x0D])"

definition skip_ws :: "string \<Rightarrow> string" where
  "skip_ws s = dropWhile is_json_ws s"

definition hex_val :: "char \<Rightarrow> nat option" where
  "hex_val c =
     (if is_digit c then Some (of_char c - 48)
      else if c \<in> set ''abcdef'' then Some (of_char c - 87)
      else if c \<in> set ''ABCDEF'' then Some (of_char c - 55)
      else None)"

fun hex4 :: "string \<Rightarrow> nat option" where
  "hex4 (a # b # c # d # _) =
     (case (hex_val a, hex_val b, hex_val c, hex_val d) of
        (Some x, Some y, Some z, Some w) \<Rightarrow> Some (((x * 16 + y) * 16 + z) * 16 + w)
      | _ \<Rightarrow> None)"
| "hex4 _ = None"

definition unescape :: "char \<Rightarrow> char option" where
  "unescape e =
     (if e = CHR 0x22 then Some (CHR 0x22)
      else if e = CHR 0x5C then Some (CHR 0x5C)
      else if e = CHR ''/'' then Some (CHR ''/'')
      else if e = CHR ''b'' then Some (CHR 0x08)
      else if e = CHR ''f'' then Some (CHR 0x0C)
      else if e = CHR ''n'' then Some (CHR 0x0A)
      else if e = CHR ''r'' then Some (CHR 0x0D)
      else if e = CHR ''t'' then Some (CHR 0x09)
      else None)"

text \<open>The characters after an opening quote, up to the closing quote.\<close>

fun scanstring :: "string \<Rightarrow> string \<Rightarrow> string scan" where
  "scanstring [] acc = Bad"
| "scanstring (c # cs) acc =
     (if c = CHR 0x22 then Ok acc cs
      else if c = CHR 0x5C then
        (case cs of
           [] \<Rightarrow> Bad
         | e # r \<Rightarrow>
             if e = CHR ''u'' then
               (case hex4 r of
                  None \<Rightarrow> Bad
                | Some n \<Rightarrow> if n < 256 then scanstring (drop 4 r) (acc @ [char_of n]) else Beyond)
             else
               (case unescape e of
                  None \<Rightarrow> Bad
                | Some ch \<Rightarrow> scanstring r (acc @ [ch])))
      else if (of_char c :: nat) < 32 then Bad
      else scanstring cs (acc @ [c]))"

text \<open>
  The number pattern \<open>(-?(?:0|[1-9]\d*))(\.\d+)?([eE][-+]?\d+)?\<close>: an integer when
  neither fraction nor exponent is present, a float otherwise.
\<close>

definition scan_int_part :: "string \<Rightarrow> (string \<times> string) option" where
  "scan_int_part s =
     (case s of
        [] \<Rightarrow> None
      | c # r \<Rightarrow>
          if c = CHR ''0'' then Some ([c], r)
          else if is_digit c then Some (takeWhile is_digit s, dropWhile is_digit s)
          else None)"

definition scan_frac :: "string \<Rightarrow> string \<times> string" where
  "scan_frac s =
     (case s of
        c # r \<Rightarrow>
          if c = CHR ''.'' \<and> takeWhile is_digit r \<noteq> []
          then (takeWhile is_digit r, dropWhile is_digit r) else ([], s)
      | [] \<Rightarrow> ([], s))"

definition scan_exp :: "string \<Rightarrow> int option \<times> string" where
  "scan_exp s =
     (case s of
        c # r \<Rightarrow>
          if c = CHR ''e'' \<or> c = CHR ''E'' then
            (let neg = startswith r ''-'';
                 r' = (if startswith r ''-'' \<or> startswith r ''+'' then drop 1 r else r);
                 ds = takeWhile is_digit r'
             in if ds \<noteq> []
                then (Some (if neg then - int_of_digits ds else int_of_digits ds),
                      dropWhile is_digit r')
                else (None, s))
          else (None, s)
      | [] \<Rightarrow> (None, s))"

text \<open>
  \<open>float(literal)\<close> for the decimal number \<open>m * 10 ^ e\<close>, correctly rounded to a
  binary double: zero when the magnitude is at most \<open>2 ^ -1075\<close>, an infinity when it
  is at least \<open>2 ^ 1024 - 2 ^ 970\<close>.
\<close>

definition float_of_decimal :: "int \<Rightarrow> int \<Rightarrow> pyfloat" where
  "float_of_decimal m e =
     (if m = 0 then Dec 0 e
      else if e < 0 \<and> \<bar>m\<bar> * 2 ^ 1075 \<le> 10 ^ nat (- e) then Dec 0 e
      else if (0 \<le> e \<and> 2 ^ 1024 - 2 ^ 970 \<le> \<bar>m\<bar> * 10 ^ nat e)
            \<or> (e < 0 \<and> (2 ^ 1024 - 2 ^ 970) * 10 ^ nat (- e) \<le> \<bar>m\<bar>)
        then (if 0 < m then Infinity else NegInfinity)
      else Dec m e)"

definition scan_number :: "string \<Rightarrow> json scan" where
  "scan_number s =
     (let neg = startswith s ''-'';
          sgn = (if neg then - 1 else 1 :: int)
      in case scan_int_part (if neg then drop 1 s else s) of
           None \<Rightarrow> Bad
         | Some (ip, r1) \<Rightarrow>
             (case scan_frac r1 of (fp, r2) \<Rightarrow>
              case scan_exp r2 of (ex, r3) \<Rightarrow>
                if fp = [] \<and> ex = None then Ok (JInt (sgn * int_of_digits ip)) r3
                else Ok (JFloat (float_of_decimal (sgn * int_of_digits (ip @ fp))
                                   ((case ex of None \<Rightarrow> 0 | Some x \<Rightarrow> x) - int (length fp)))) r3))"

definition scan_word :: "string \<Rightarrow> json scan" where
  "scan_word s =
     (if startswith s ''null'' then Ok JNull (drop 4 s)
      else if startswith s ''true'' then Ok (JBool True) (drop 4 s)
      else if startswith s ''false'' then Ok (JBool False) (drop 5 s)
      else case scan_number s of
             Ok v r \<Rightarrow> Ok v r
           | Beyond \<Rightarrow> Beyond
           | Bad \<Rightarrow>
               if startswith s ''NaN'' then Ok (JFloat NaN) (drop 3 s)
               else if startswith s ''Infinity'' then Ok (JFloat Infinity) (drop 8 s)
               else if startswith s ''-Infinity'' then Ok (JFloat NegInfinity) (drop 9 s)
               else Bad)"

text \<open>
  \<open>scan_once\<close> reads one value; \<open>scan_array\<close> is entered at an element and
  \<open>scan_object\<close> just after the opening quote of a key. The first argument bounds the
  recursion.
\<close>

fun scan_once :: "nat \<Rightarrow> string \<Rightarrow> json scan"
  and scan_array :: "nat \<Rightarrow> string \<Rightarrow> json list \<Rightarrow> json scan"
  and scan_object :: "nat \<Rightarrow> string \<Rightarrow> (string \<times> json) list \<Rightarrow> json scan" where
  "scan_once 0 s = Beyond"
| "scan_once (Suc n) s =
     (case s of
        [] \<Rightarrow> Bad
      | c # r \<Rightarrow>
          if c = CHR 0x22 then
            (case scanstring r [] of Ok v r' \<Rightarrow> Ok (JStr v) r' | Bad \<Rightarrow> Bad | Beyond \<Rightarrow> Beyond)
          else if c = CHR ''{'' then
            (case skip_ws r of
               [] \<Rightarrow> Bad
             | d # r' \<Rightarrow>
                 if d = CHR ''}'' then Ok (JObj []) r'
                 else if d = CHR 0x22 then scan_object n r' []
                 else Bad)
          else if c = CHR ''['' then
            (case skip_ws r of
               [] \<Rightarrow> Bad
             | d # r' \<Rightarrow> if d = CHR '']'' then Ok (JArr []) r' else scan_array n (d # r') [])
          else scan_word s)"
| "scan_array 0 s acc = Beyond"
| "scan_array (Suc n) s acc =
     (case scan_once n s of
        Bad \<Rightarrow> Bad
      | Beyond \<Rightarrow> Beyond
      | Ok v r \<Rightarrow>
          (case skip_ws r of
             [] \<Rightarrow> Bad
           | d # r' \<Rightarrow>
               if d = CHR '']'' then Ok (JArr (acc @ [v])) r'
               else if d = CHR '','' then scan_array n (skip_ws r') (acc @ [v])
               else Bad))"
| "scan_object 0 s acc = Beyond"
| "scan_object (Suc n) s acc =
     (case scanstring s [] of
        Bad \<Rightarrow> Bad
      | Beyond \<Rightarrow> Beyond
      | Ok key r \<Rightarrow>
          (case skip_ws r of
             [] \<Rightarrow> Bad
           | d # r' \<Rightarrow>
               if d = CHR '':'' then
                 (case scan_once n (skip_ws r') of
                    Bad \<Rightarrow> Bad
                  | Beyond \<Rightarrow> Beyond
                  | Ok v r'' \<Rightarrow>
                      (case skip_ws r'' of
                         [] \<Rightarrow> Bad
                       | d' # t \<Rightarrow>
                           if d' = CHR ''}'' then Ok (JObj (AList.update key v acc)) t
                           else if d' = CHR '','' then
                             (case skip_ws t of
                                [] \<Rightarrow> Bad
                              | q # t' \<Rightarrow>
                                  if q = CHR 0x22 then scan_object n t' (AList.update key v acc)
                                  else Bad)
                           else Bad))
               else Bad))"

definition json_loads :: "string \<Rightarrow> pyexn + json" where
  "json_loads s =
     (case scan_once (2 * length s + 2) (skip_ws s) of
        Bad \<Rightarrow> Inl JSONDecodeError
      | Beyond \<Rightarrow> Inl NotModelled
      | Ok v r \<Rightarrow> if skip_ws r = [] then Inr v else Inl JSONDecodeError)"

section \<open>Gap and range analysis (mismatch.py, \<open>find_gaps_and_ranges\<close>)\<close>

text \<open>
  The dictionary returned for an empty set has only the keys \<open>ranges\<close>, \<open>gaps\<close>,
  \<open>min\<close> and \<open>max\<close>; the keys it lacks are \<open>None\<close> in the record.
\<close>

record gap_report =
  ranges :: "(int \<times> int) list"
  gaps :: "(int \<times> int) list"
  min_line :: "int option"
  max_line :: "int option"
  total_expected :: "int option"
  total_actual :: "int option"
  missing_count :: "int option"

text \<open>The loop \<open>for current in sorted_lines[1:]\<close> over the variables
  \<open>start\<close>, \<open>prev\<close>, \<open>ranges\<close> and \<open>gaps\<close>.\<close>

fun scan_lines :: "int list \<Rightarrow> int \<Rightarrow> int \<Rightarrow> (int \<times> int) list \<Rightarrow> (int \<times> int) list
                    \<Rightarrow> int \<times> int \<times> (int \<times> int) list \<times> (int \<times> int) list" where
  "scan_lines [] start prev rngs gps = (start, prev, rngs, gps)"
| "scan_lines (current # rest) start prev rngs gps =
     (if current \<noteq> prev + 1 then
        scan_lines rest current current (rngs @ [(start, prev)])
          (if current - prev > 1 then gps @ [(prev + 1, current - 1)] else gps)
      else scan_lines rest start current rngs gps)"

definition find_gaps_and_ranges :: "int set \<Rightarrow> pyexn + gap_report" where
  "find_gaps_and_ranges line_numbers =
     (if line_numbers = {} then
        Inr \<lparr> ranges = [], gaps = [], min_line = None, max_line = None,
              total_expected = None, total_actual = None, missing_count = None \<rparr>
      else
        let sorted_lines = sorted_list_of_set line_numbers in
        case py_index sorted_lines 0 of Inl e \<Rightarrow> Inl e | Inr mn \<Rightarrow>
        case py_index sorted_lines (- 1) of Inl e \<Rightarrow> Inl e | Inr mx \<Rightarrow>
        case py_index sorted_lines 0 of Inl e \<Rightarrow> Inl e | Inr first \<Rightarrow>
        case scan_lines (drop 1 sorted_lines) first first [] [] of
          (start, prev, rngs, gps) \<Rightarrow>
            Inr \<lparr> ranges = rngs @ [(start, prev)],
                  gaps = gps,
                  min_line = Some mn,
                  max_line = Some mx,
                  total_expected = Some (mx - mn + 1),
                  total_actual = Some (int (card line_numbers)),
                  missing_count = Some ((mx - mn + 1) - int (card line_numbers)) \<rparr>)"

text \<open>
  A maximal run of present keys, and a maximal run of absent keys lying between two
  present keys (hence inside the span from the least to the greatest key).
\<close>

definition is_run :: "int set \<Rightarrow> int \<times> int \<Rightarrow> bool" where
  "is_run U r = (case r of (a, b) \<Rightarrow> a \<le> b \<and> {a..b} \<subseteq> U \<and> a - 1 \<notin> U \<and> b + 1 \<notin> U)"

definition is_gap :: "int set \<Rightarrow> int \<times> int \<Rightarrow> bool" where
  "is_gap U g = (case g of (a, b) \<Rightarrow> a \<le> b \<and> {a..b} \<inter> U = {} \<and> a - 1 \<in> U \<and> b + 1 \<in> U)"

section \<open>Loading result files and merging (\<open>create_single_merged_file\<close>)\<close>

text \<open>
  \<open>load_batch_results\<close>: a file is the list of its lines, or \<open>None\<close> when it does not
  exist. Blank lines are skipped, a line that \<open>json.loads\<close> rejects with
  \<open>JSONDecodeError\<close> is skipped, and any other exception makes the function return
  the empty list.
\<close>

fun decode_lines :: "(string \<Rightarrow> pyexn + json) \<Rightarrow> string list \<Rightarrow> pyexn + json list" where
  "decode_lines loads [] = Inr []"
| "decode_lines loads (line # rest) =
     (if strip line = [] then decode_lines loads rest
      else case loads (strip line) of
             Inl e \<Rightarrow> if e = JSONDecodeError then decode_lines loads rest else Inl e
           | Inr result \<Rightarrow>
               (case decode_lines loads rest of
                  Inl e \<Rightarrow> Inl e
                | Inr results \<Rightarrow> Inr (result # results)))"

definition load_batch_results :: "(string \<Rightarrow> pyexn + json) \<Rightarrow> string list option \<Rightarrow> json list" where
  "load_batch_results loads file =
     (case file of
        None \<Rightarrow> []
      | Some lines \<Rightarrow> (case decode_lines loads lines of Inl e \<Rightarrow> [] | Inr results \<Rightarrow> results))"

text \<open>
  The loop \<open>for result in results\<close> that fills one dictionary \<open>all_..._results\<close>. A
  dictionary is an association list in insertion order; assigning to a key that is
  present replaces its value in place. \<open>decode\<close> and \<open>extract\<close> are the script's
  \<open>extract_line_number_from_custom_id\<close> and \<open>extract_text_from_result\<close>.
\<close>

fun load_results ::
  "(json \<Rightarrow> pyexn + int option) \<Rightarrow> (json \<Rightarrow> pyexn + string) \<Rightarrow> json list
     \<Rightarrow> (int \<times> string) list \<Rightarrow> pyexn + (int \<times> string) list" where
  "load_results decode extract [] d = Inr d"
| "load_results decode extract (result # rest) d =
     (case py_get result ''custom_id'' (JStr []) of
        Inl e \<Rightarrow> Inl e
      | Inr cid \<Rightarrow>
          (case decode cid of
             Inl e \<Rightarrow> Inl e
           | Inr None \<Rightarrow> load_results decode extract rest d
           | Inr (Some line_num) \<Rightarrow>
               (case extract result of
                  Inl e \<Rightarrow> Inl e
                | Inr extracted_text \<Rightarrow>
                    load_results decode extract rest (AList.update line_num extracted_text d))))"

text \<open>The loop over the files of one field, in the order of the file list.\<close>

fun load_files ::
  "(json \<Rightarrow> pyexn + int option) \<Rightarrow> (json \<Rightarrow> pyexn + string) \<Rightarrow> json list list
     \<Rightarrow> (int \<times> string) list \<Rightarrow> pyexn + (int \<times> string) list" where
  "load_files decode extract [] d = Inr d"
| "load_files decode extract (results # files) d =
     (case load_results decode extract results d of
        Inl e \<Rightarrow> Inl e
      | Inr d' \<Rightarrow> load_files decode extract files d')"

text \<open>\<open>d[k]\<close> on a dictionary, and \<open>set(d.keys())\<close>.\<close>

definition dict_item :: "('k \<times> 'v) list \<Rightarrow> 'k \<Rightarrow> pyexn + 'v" where
  "dict_item d k = (case map_of d k of None \<Rightarrow> Inl KeyError | Some v \<Rightarrow> Inr v)"

definition keys :: "('k \<times> 'v) list \<Rightarrow> 'k set" where
  "keys d = set (map fst d)"

text \<open>A list comprehension or loop body that may raise stops at the first exception.\<close>

fun map_exn :: "('a \<Rightarrow> pyexn + 'b) \<Rightarrow> 'a list \<Rightarrow> pyexn + 'b list" where
  "map_exn f [] = Inr []"
| "map_exn f (x # xs) =
     (case f x of
        Inl e \<Rightarrow> Inl e
      | Inr y \<Rightarrow> (case map_exn f xs of Inl e \<Rightarrow> Inl e | Inr ys \<Rightarrow> Inr (y # ys)))"

text \<open>
  merged\_results.py, lines 162-179: the common line numbers and the merged entries.
  The result is \<open>None\<close> when the function returns early without writing a file;
  otherwise it is the list \<open>merged_results\<close>, which is then written one entry per
  line, in this order.
\<close>

definition merged_entry :: "string \<Rightarrow> string \<Rightarrow> string \<Rightarrow> (string \<times> string) list" where
  "merged_entry a b c = [(''instruction'', a), (''input'', b), (''output'', c)]"

definition merge_results_merged_results ::
  "(int \<times> string) list \<Rightarrow> (int \<times> string) list \<Rightarrow> (int \<times> string) list
     \<Rightarrow> pyexn + (string \<times> string) list list option" where
  "merge_results_merged_results all_instruction_results all_input_results all_output_results =
     (let common_lines = keys all_instruction_results \<inter> keys all_input_results
                           \<inter> keys all_output_results
      in if common_lines = {} then Inr None
         else
           case map_exn (\<lambda>line_num.
                  case dict_item all_instruction_results line_num of Inl e \<Rightarrow> Inl e | Inr a \<Rightarrow>
                  case dict_item all_input_results line_num of Inl e \<Rightarrow> Inl e | Inr b \<Rightarrow>
                  case dict_item all_output_results line_num of Inl e \<Rightarrow> Inl e | Inr c \<Rightarrow>
                  Inr (merged_entry a b c))
                (sorted_list_of_set common_lines) of
             Inl e \<Rightarrow> Inl e
           | Inr merged_results \<Rightarrow> Inr (Some merged_results))"

text \<open>
  merged\_results.py, \<open>create_single_merged_file\<close>. \<open>batches\<close> lists, for each batch
  number found in the instruction directory and in ascending order, the instruction,
  input and output result file of that batch.
\<close>

definition create_single_merged_file_merged_results ::
  "(string \<Rightarrow> pyexn + json)
     \<Rightarrow> (string list option \<times> string list option \<times> string list option) list
     \<Rightarrow> pyexn + (string \<times> string) list list option" where
  "create_single_merged_file_merged_results loads batches =
     (if batches = [] then Inr None
      else
        let decode = extract_line_number_from_custom_id_merged_results;
            extract = extract_text_from_result_merged_results loads
        in
        case load_files decode extract
               (map (\<lambda>b. load_batch_results loads (fst b)) batches) [] of
          Inl e \<Rightarrow> Inl e | Inr all_instruction_results \<Rightarrow>
        case load_files decode extract
               (map (\<lambda>b. load_batch_results loads (fst (snd b))) batches) [] of
          Inl e \<Rightarrow> Inl e | Inr all_input_results \<Rightarrow>
        case load_files decode extract
               (map (\<lambda>b. load_batch_results loads (snd (snd b))) batches) [] of
          Inl e \<Rightarrow> Inl e | Inr all_output_results \<Rightarrow>
        merge_results_merged_results all_instruction_results all_input_results all_output_results)"

text \<open>
  instructOutput.py, lines 220-243 and \<open>create_single_merged_file\<close>: two fields are
  looked up, \<open>input\<close> is always the empty string.
\<close>

definition merge_results_instructOutput ::
  "(int \<times> string) list \<Rightarrow> (int \<times> string) list
     \<Rightarrow> pyexn + (string \<times> string) list list option" where
  "merge_results_instructOutput all_instruction_results all_output_results =
     (let common_lines = keys all_instruction_results \<inter> keys all_output_results
      in if common_lines = {} then Inr None
         else
           case map_exn (\<lambda>line_num.
                  case dict_item all_instruction_results line_num of Inl e \<Rightarrow> Inl e | Inr a \<Rightarrow>
                  case dict_item all_output_results line_num of Inl e \<Rightarrow> Inl e | Inr c \<Rightarrow>
                  Inr (merged_entry a [] c))
                (sorted_list_of_set common_lines) of
             Inl e \<Rightarrow> Inl e
           | Inr merged_results \<Rightarrow> Inr (Some merged_results))"

definition create_single_merged_file_instructOutput ::
  "(string \<Rightarrow> pyexn + json) \<Rightarrow> string list option list \<Rightarrow> string list option list
     \<Rightarrow> pyexn + (string \<times> string) list list option" where
  "create_single_merged_file_instructOutput loads instruction_files output_files =
     (if instruction_files = [] \<or> output_files = [] then Inr None
      else
        let decode = extract_line_number_from_custom_id_instructOutput;
            extract = extract_text_from_result_instructOutput loads
        in
        case load_files decode extract (map (load_batch_results loads) instruction_files) [] of
          Inl e \<Rightarrow> Inl e | Inr all_instruction_results \<Rightarrow>
        case load_files decode extract (map (load_batch_results loads) output_files) [] of
          Inl e \<Rightarrow> Inl e | Inr all_output_results \<Rightarrow>
        merge_results_instructOutput all_instruction_results all_output_results)"

section \<open>Per-file analysis and mismatch report (mismatch.py)\<close>

text \<open>
  The dictionary \<open>analysis\<close> of \<open>analyze_file_entries\<close>, without the two strings
  \<open>file_path\<close> and \<open>file_type\<close> that are copied from the arguments. An entry of
  \<open>entries_by_line\<close> is the tuple (custom\_id, extracted\_text, text\_length,
  entry\_index); an entry of \<open>error_entries\<close> is (custom\_id, line\_num, error).
\<close>

record analysis =
  total_entries :: nat
  line_numbers :: "int set"
  custom_ids :: "json list"
  successful_extractions :: nat
  failed_extractions :: nat
  empty_extractions :: nat
  error_entries :: "(json \<times> int option \<times> string) list"
  duplicate_line_numbers :: "(int \<times> nat) list"
  entries_by_line :: "(int \<times> json \<times> string \<times> nat \<times> nat) list"

text \<open>Lines 155-165: the three-way classification of the extracted text.\<close>

definition classify ::
  "json \<Rightarrow> int option \<Rightarrow> string \<Rightarrow> analysis \<Rightarrow> analysis" where
  "classify cid line_num extracted_text a =
     (if startswith extracted_text ''ERROR_EXTRACTING'' then
        a\<lparr> failed_extractions := failed_extractions a + 1,
           error_entries := error_entries a @ [(cid, line_num, extracted_text)] \<rparr>
      else if extracted_text = [] \<or> strip extracted_text = [] then
        a\<lparr> empty_extractions := empty_extractions a + 1 \<rparr>
      else a\<lparr> successful_extractions := successful_extractions a + 1 \<rparr>)"

text \<open>Lines 145-153: what is recorded when the identifier gave a line number.\<close>

definition record_line ::
  "json \<Rightarrow> int option \<Rightarrow> string \<Rightarrow> nat \<Rightarrow> analysis \<times> (int \<times> nat) list
     \<Rightarrow> analysis \<times> (int \<times> nat) list" where
  "record_line cid line_num extracted_text i st =
     (case line_num of
        None \<Rightarrow> st
      | Some k \<Rightarrow>
          (case st of (a, line_number_counts) \<Rightarrow>
             (a\<lparr> line_numbers := insert k (line_numbers a),
                 entries_by_line :=
                   AList.update k (cid, extracted_text, length extracted_text, i)
                     (entries_by_line a) \<rparr>,
              AList.update k
                ((case map_of line_number_counts k of None \<Rightarrow> 0 | Some c \<Rightarrow> c) + 1)
                line_number_counts)))"

text \<open>
  The body of the loop \<open>for i, result in enumerate(results)\<close> after \<open>custom_id\<close>,
  \<open>line_num\<close> and \<open>extracted_text\<close> have been computed. The state is \<open>analysis\<close>
  together with the \<open>defaultdict\<close> \<open>line_number_counts\<close>.
\<close>

definition loop_body ::
  "json \<Rightarrow> int option \<Rightarrow> string \<Rightarrow> nat \<Rightarrow> analysis \<times> (int \<times> nat) list
     \<Rightarrow> analysis \<times> (int \<times> nat) list" where
  "loop_body cid line_num extracted_text i st =
     (case record_line cid line_num extracted_text i
             (fst st\<lparr> custom_ids := custom_ids (fst st) @ [cid] \<rparr>, snd st) of
        (a, line_number_counts) \<Rightarrow>
          (classify cid line_num extracted_text a, line_number_counts))"

fun analyze_entries ::
  "(string \<Rightarrow> pyexn + json) \<Rightarrow> (pyexn \<Rightarrow> string) \<Rightarrow> json list \<Rightarrow> nat
     \<Rightarrow> analysis \<times> (int \<times> nat) list \<Rightarrow> pyexn + analysis \<times> (int \<times> nat) list" where
  "analyze_entries loads msg [] i st = Inr st"
| "analyze_entries loads msg (result # rest) i st =
     (case py_get result ''custom_id'' (JStr (''unknown_'' @ str_int (int i))) of
        Inl e \<Rightarrow> Inl e
      | Inr cid \<Rightarrow>
          (case extract_line_number_from_custom_id_mismatch cid of
             Inl e \<Rightarrow> Inl e
           | Inr line_num \<Rightarrow>
               (case extract_text_from_result_mismatch loads msg result of
                  Inl e \<Rightarrow> Inl e
                | Inr extracted_text \<Rightarrow>
                    analyze_entries loads msg rest (Suc i)
                      (loop_body cid line_num extracted_text i st))))"

definition analyze_file_entries ::
  "(string \<Rightarrow> pyexn + json) \<Rightarrow> (pyexn \<Rightarrow> string) \<Rightarrow> json list \<Rightarrow> pyexn + analysis" where
  "analyze_file_entries loads msg results =
     (case analyze_entries loads msg results 0
             (\<lparr> total_entries = length results, line_numbers = {}, custom_ids = [],
                successful_extractions = 0, failed_extractions = 0, empty_extractions = 0,
                error_entries = [], duplicate_line_numbers = [], entries_by_line = [] \<rparr>, []) of
        Inl e \<Rightarrow> Inl e
      | Inr (a, line_number_counts) \<Rightarrow>
          Inr (a\<lparr> duplicate_line_numbers := filter (\<lambda>kc. snd kc > 1) line_number_counts \<rparr>))"

text \<open>
  \<open>find_mismatches\<close>. Each argument lists, in the order of the sorted file names, what
  \<open>load_batch_results\<close> returned for a file of the instruction and of the output
  directory.
\<close>

record mismatch_report =
  instruction_files :: "analysis list"
  output_files :: "analysis list"
  total_instruction_lines :: nat
  total_output_lines :: nat
  common_lines :: nat
  missing_in_output :: "int list"
  missing_in_instruction :: "int list"
  total_mismatches :: nat
  lines_only_in_instruction :: nat
  lines_only_in_output :: nat
  matching_lines :: nat

definition find_mismatches ::
  "(string \<Rightarrow> pyexn + json) \<Rightarrow> (pyexn \<Rightarrow> string) \<Rightarrow> json list list \<Rightarrow> json list list
     \<Rightarrow> pyexn + mismatch_report" where
  "find_mismatches loads msg instruction_results output_results =
     (case map_exn (analyze_file_entries loads msg) instruction_results of
        Inl e \<Rightarrow> Inl e
      | Inr instruction_analysis \<Rightarrow>
     (case map_exn (analyze_file_entries loads msg) output_results of
        Inl e \<Rightarrow> Inl e
      | Inr output_analysis \<Rightarrow>
          let all_instruction_lines = \<Union> (set (map line_numbers instruction_analysis));
              all_output_lines = \<Union> (set (map line_numbers output_analysis));
              missing_in_output = all_instruction_lines - all_output_lines;
              missing_in_instruction = all_output_lines - all_instruction_lines;
              common_lines = all_instruction_lines \<inter> all_output_lines
          in Inr \<lparr> instruction_files = instruction_analysis,
                   output_files = output_analysis,
                   total_instruction_lines = card all_instruction_lines,
                   total_output_lines = card all_output_lines,
                   common_lines = card common_lines,
                   missing_in_output = sorted_list_of_set missing_in_output,
                   missing_in_instruction = sorted_list_of_set missing_in_instruction,
                   total_mismatches = card missing_in_output + card missing_in_instruction,
                   lines_only_in_instruction = card missing_in_output,
                   lines_only_in_output = card missing_in_instruction,
                   matching_lines = card common_lines \<rparr>))"

section \<open>Notions used to state the properties\<close>

text \<open>
  The two envelope shapes as paths: \<open>response.body.choices[0].message.content\<close> and
  \<open>result.message.content[0].text\<close>.
\<close>

definition member :: "string \<Rightarrow> json \<Rightarrow> json option" where
  "member k x = (case x of JObj kvs \<Rightarrow> map_of kvs k | _ \<Rightarrow> None)"




text \<open>
  A result line as the scripts expect it: a JSON object whose \<open>custom_id\<close>, when it
  has one, is a string. \<open>entry_key\<close> is the line number that the ordered patterns read
  from the identifier, \<open>None\<close> when the identifier is absent or matches no pattern.
\<close>

definition entry_id :: "json \<Rightarrow> string option" where
  "entry_id e = (case member ''custom_id'' e of Some (JStr s) \<Rightarrow> Some s | _ \<Rightarrow> None)"

definition well_formed_entry :: "json \<Rightarrow> bool" where
  "well_formed_entry e =
     (case e of
        JObj kvs \<Rightarrow> (case map_of kvs ''custom_id'' of None \<Rightarrow> True | Some v \<Rightarrow> (case v of JStr s \<Rightarrow> True | _ \<Rightarrow> False))
      | _ \<Rightarrow> False)"

definition entry_key :: "string list \<Rightarrow> json \<Rightarrow> int option" where
  "entry_key patterns e =
     (case entry_id e of
        None \<Rightarrow> None
      | Some s \<Rightarrow> map_option int_of_digits (search_patterns patterns s))"

text \<open>The string a total extractor returns for an entry.\<close>

definition text_of :: "(json \<Rightarrow> pyexn + string) \<Rightarrow> json \<Rightarrow> string" where
  "text_of extract e = (case extract e of Inr s \<Rightarrow> s | Inl x \<Rightarrow> [])"

text \<open>An envelope of each shape with nothing but an identifier and the content.\<close>

definition response_envelope :: "string \<Rightarrow> string \<Rightarrow> json" where
  "response_envelope cid content =
     JObj [(''custom_id'', JStr cid),
           (''response'', JObj [(''body'', JObj [(''choices'',
              JArr [JObj [(''message'', JObj [(''content'', JStr content)])]])])])]"

definition result_envelope :: "string \<Rightarrow> string \<Rightarrow> json" where
  "result_envelope cid content =
     JObj [(''custom_id'', JStr cid),
           (''result'', JObj [(''message'', JObj [(''content'',
              JArr [JObj [(''text'', JStr content)]])])])]"

text \<open>
  The three tallies of \<open>analyze_file_entries\<close>, as a function of the string that
  extraction returned.
\<close>

datatype tally = Failed | Empty | Successful

definition tally_of :: "string \<Rightarrow> tally" where
  "tally_of extracted_text =
     (if startswith extracted_text ''ERROR_EXTRACTING'' then Failed
      else if strip extracted_text = [] then Empty
      else Successful)"

definition occurrences :: "string list \<Rightarrow> json list \<Rightarrow> int \<Rightarrow> nat" where
  "occurrences patterns results k = length (filter (\<lambda>e. entry_key patterns e = Some k) results)"

definition count_of :: "(int \<times> nat) list \<Rightarrow> int \<Rightarrow> nat" where
  "count_of counts k = (case map_of counts k of None \<Rightarrow> 0 | Some c \<Rightarrow> c)"

text \<open>The keys that the entries of a list of files give under a list of patterns.\<close>

definition key_set :: "string list \<Rightarrow> json list list \<Rightarrow> int set" where
  "key_set patterns files = {k. \<exists>f\<in>set files. \<exists>e\<in>set f. entry_key patterns e = Some k}"

section \<open>Identifier codec: proofs\<close>

lemma digit_val_digit_char: "d < 10 \<Longrightarrow> digit_val (digit_char d) = d"
proof -
  assume "d < 10"
  then have "d \<in> {0, 1, 2, 3, 4, 5, 6, 7, 8, 9}" by auto
  then show ?thesis by (auto simp: digit_val_def digit_char_def)
qed

lemma is_digit_digit_char: "d < 10 \<Longrightarrow> is_digit (digit_char d)"
proof -
  assume "d < 10"
  then have "d \<in> {0, 1, 2, 3, 4, 5, 6, 7, 8, 9}" by auto
  then show ?thesis by (auto simp: is_digit_def digit_char_def)
qed

lemma digits_of_nat_digits: "\<forall>c\<in>set (digits_of_nat n). is_digit c"
proof (induction n rule: digits_of_nat.induct)
  case (1 n)
  show ?case
  proof (cases "n < 10")
    case True
    then show ?thesis by (simp add: digits_of_nat.simps[of n] is_digit_digit_char)
  next
    case False
    then show ?thesis using 1 by (simp add: digits_of_nat.simps[of n] is_digit_digit_char)
  qed
qed

lemma digits_of_nat_nonempty: "digits_of_nat n \<noteq> []"
  by (subst digits_of_nat.simps) simp

lemma foldl_digits_of_nat: "foldl (\<lambda>a c. 10 * a + digit_val c) 0 (digits_of_nat n) = n"
proof (induction n rule: digits_of_nat.induct)
  case (1 n)
  show ?case
  proof (cases "n < 10")
    case True
    then show ?thesis by (simp add: digits_of_nat.simps[of n] digit_val_digit_char)
  next
    case False
    then show ?thesis using 1
      by (simp add: digits_of_nat.simps[of n] digit_val_digit_char)
  qed
qed

lemma int_of_digits_str_int: "0 \<le> n \<Longrightarrow> int_of_digits (str_int n) = n"
  by (simp add: int_of_digits_def str_int_def foldl_digits_of_nat)

lemma dropWhile_keeps_tail:
  "\<not> P x \<Longrightarrow> \<exists>q'. dropWhile P (q @ x # ds) = q' @ x # ds"
  by (induction q) auto

lemma match_digits_end_blocked:
  assumes "\<not> is_digit x" "ds \<noteq> []"
  shows "match_digits_end (q @ x # ds) = None"
proof -
  obtain q' where "dropWhile is_digit (q @ x # ds) = q' @ x # ds"
    using dropWhile_keeps_tail[of is_digit x q ds] assms(1) by blast
  then show ?thesis using assms(2) by (cases ds) (auto simp: match_digits_end_def Let_def)
qed

lemma match_digits_end_all:
  assumes "\<forall>c\<in>set ds. is_digit c" "ds \<noteq> []"
  shows "match_digits_end ds = Some ds"
proof -
  have tw: "takeWhile is_digit ds = ds" and dw: "dropWhile is_digit ds = []"
    using assms(1) by simp_all
  show ?thesis unfolding match_digits_end_def Let_def tw dw using assms(2) by simp
qed

lemma match_line_at_blocked:
  assumes "s = A @ x # ds" "length lit \<le> length A" "\<not> is_digit x" "ds \<noteq> []"
  shows "match_line_at lit s = None"
proof -
  have "drop (length lit) s = drop (length lit) A @ x # ds"
    using assms(1,2) by simp
  then have "match_digits_end (drop (length lit) s) = None"
    using match_digits_end_blocked[OF assms(3,4)] by simp
  then show ?thesis by (simp add: match_line_at_def)
qed

lemma match_line_at_early:
  assumes "ds \<noteq> []"
  shows "match_line_at ''_line_'' (c # p @ ''_line_'' @ ds) = None"
proof (rule match_line_at_blocked[where A = "c # p @ ''_line''" and x = "CHR ''_''" and ds = ds])
  show "c # p @ ''_line_'' @ ds = (c # p @ ''_line'') @ CHR ''_'' # ds" by simp
  show "length ''_line_'' \<le> length (c # p @ ''_line'')" by simp
  show "\<not> is_digit CHR ''_''" by (simp add: is_digit_def)
  show "ds \<noteq> []" by (rule assms)
qed

lemma search_line_suffix:
  assumes "\<forall>c\<in>set ds. is_digit c" "ds \<noteq> []"
  shows "search_line ''_line_'' (p @ ''_line_'' @ ds) = Some ds"
proof (induction p)
  case Nil
  have "match_line_at ''_line_'' (''_line_'' @ ds) = Some ds"
    using match_digits_end_all[OF assms] by (simp add: match_line_at_def startswith_def)
  then show ?case by simp
next
  case (Cons c p)
  then show ?case using match_line_at_early[OF assms(2), of c p] by simp
qed

lemma search_line_custom_id:
  assumes "0 \<le> n"
  shows "search_line ''_line_'' (custom_id ns f n) = Some (str_int n)"
proof -
  have ds: "\<forall>c\<in>set (str_int n). is_digit c" "str_int n \<noteq> []"
    using assms by (simp_all add: str_int_def digits_of_nat_digits digits_of_nat_nonempty)
  have "custom_id ns f n = (ns @ ''_'' @ f) @ ''_line_'' @ str_int n"
    by (simp add: custom_id_def)
  then show ?thesis using search_line_suffix[OF ds] by metis
qed

lemma line_number_by_custom_id:
  assumes "0 \<le> n"
  shows "line_number_by (''_line_'' # lits) (JStr (custom_id ns f n)) = Inr (Some n)"
  using search_line_custom_id[OF assms, of ns f] int_of_digits_str_int[OF assms]
  by (simp add: line_number_by_def)

text \<open>
  Claim C3. For every namespace \<open>ns\<close>, field name \<open>f\<close> and integer \<open>n \<ge> 0\<close>, the
  identifier \<open>"{ns}_{f}_line_{n}"\<close> written by the batch creator is decoded to \<open>n\<close> by
  \<open>extract_line_number_from_custom_id\<close> of each of the three scripts.
\<close>

theorem custom_id_round_trip:
  assumes "0 \<le> n"
  shows "extract_line_number_from_custom_id_merged_results (JStr (custom_id ns f n)) = Inr (Some n)
       \<and> extract_line_number_from_custom_id_instructOutput (JStr (custom_id ns f n)) = Inr (Some n)
       \<and> extract_line_number_from_custom_id_mismatch (JStr (custom_id ns f n)) = Inr (Some n)"
  using line_number_by_custom_id[OF assms]
  by (simp add: extract_line_number_from_custom_id_merged_results_def
      extract_line_number_from_custom_id_instructOutput_def
      extract_line_number_from_custom_id_mismatch_def
      patterns_merged_results_def patterns_instructOutput_def patterns_mismatch_def)

theorem custom_id_round_trip_witness:
  "(0::int) \<le> 42
   \<and> custom_id ''ns'' ''field'' 42 = ''ns_field_line_42''
   \<and> extract_line_number_from_custom_id_merged_results (JStr ''ns_field_line_42'') = Inr (Some 42)
   \<and> extract_line_number_from_custom_id_instructOutput (JStr ''ns_field_line_42'') = Inr (Some 42)
   \<and> extract_line_number_from_custom_id_mismatch (JStr ''ns_field_line_42'') = Inr (Some 42)"
proof -
  have h: "(0::int) \<le> 42" by simp
  have enc: "custom_id ''ns'' ''field'' 42 = ''ns_field_line_42''"
    by (simp add: custom_id_def str_int_def digits_of_nat.simps digit_char_def)
  show ?thesis
    using custom_id_round_trip[OF h, of "''ns''" "''field''"] h enc by simp
qed

section \<open>Payload extraction: proofs\<close>









lemma extract_always_returns:
  "\<exists>s. extract_text_from_result_merged_results loads e = Inr s"
  "\<exists>s. extract_text_from_result_mismatch loads msg e = Inr s"
  "\<exists>s. extract_text_from_result_instructOutput loads e = Inr s"
  by (auto simp: extract_text_from_result_merged_results_def try_body_merged_results_def
      extract_text_from_result_mismatch_def try_body_mismatch_def extract_text_from_result_instructOutput_def try_body_instructOutput_def
      except_Exception_def split: sum.splits)













section \<open>Gap and range analysis: proofs\<close>

lemma run_split:
  assumes "s \<le> p" "\<forall>u\<in>U'. p + 1 < u"
  shows "is_run ({s..p} \<union> U') (a, b) \<longleftrightarrow> (a, b) = (s, p) \<or> is_run U' (a, b)"
proof
  assume R: "is_run ({s..p} \<union> U') (a, b)"
  then have ab: "a \<le> b" and sub: "\<And>k. a \<le> k \<Longrightarrow> k \<le> b \<Longrightarrow> k \<in> {s..p} \<union> U'"
    and lo: "a - 1 \<notin> {s..p} \<union> U'" and hi: "b + 1 \<notin> {s..p} \<union> U'"
    by (auto simp: is_run_def)
  have aU: "a \<in> {s..p} \<union> U'" using sub[of a] ab by simp
  show "(a, b) = (s, p) \<or> is_run U' (a, b)"
  proof (cases "a \<in> U'")
    case True
    then have "p + 1 < a" using assms(2) by blast
    then have "\<And>k. a \<le> k \<Longrightarrow> k \<le> b \<Longrightarrow> k \<in> U'" using sub by fastforce
    then show ?thesis using ab lo hi by (auto simp: is_run_def)
  next
    case False
    then have asp: "s \<le> a" "a \<le> p" using aU by auto
    have "a = s" using lo asp by auto
    moreover have "b \<le> p"
    proof (rule ccontr)
      assume "\<not> b \<le> p"
      then have "p + 1 \<in> {s..p} \<union> U'" using sub[of "p + 1"] asp by simp
      then show False using assms(2) by auto
    qed
    moreover have "p \<le> b" using hi \<open>b \<le> p\<close> asp ab by auto
    ultimately show ?thesis by simp
  qed
next
  assume "(a, b) = (s, p) \<or> is_run U' (a, b)"
  then show "is_run ({s..p} \<union> U') (a, b)"
  proof
    assume "(a, b) = (s, p)"
    then show ?thesis using assms by (auto simp: is_run_def)
  next
    assume R: "is_run U' (a, b)"
    then have "a \<in> U'" by (auto simp: is_run_def)
    then have "p + 1 < a" using assms(2) by blast
    then show ?thesis using R by (auto simp: is_run_def)
  qed
qed

lemma gap_split:
  assumes "s \<le> p" "\<forall>u\<in>U'. c \<le> u" "c \<in> U'" "p + 1 < c"
  shows "is_gap ({s..p} \<union> U') (a, b) \<longleftrightarrow> (a, b) = (p + 1, c - 1) \<or> is_gap U' (a, b)"
proof
  assume G: "is_gap ({s..p} \<union> U') (a, b)"
  then have ab: "a \<le> b" and out: "\<And>k. a \<le> k \<Longrightarrow> k \<le> b \<Longrightarrow> k \<notin> {s..p} \<union> U'"
    and lo: "a - 1 \<in> {s..p} \<union> U'" and hi: "b + 1 \<in> {s..p} \<union> U'"
    by (auto simp: is_gap_def)
  show "(a, b) = (p + 1, c - 1) \<or> is_gap U' (a, b)"
  proof (cases "a - 1 \<in> U'")
    case True
    then have "c \<le> a - 1" using assms(2) by blast
    then have "b + 1 \<in> U'" using hi ab assms(4) by auto
    then show ?thesis using True ab out by (auto simp: is_gap_def)
  next
    case False
    then have a1: "s \<le> a - 1" "a - 1 \<le> p" using lo by auto
    have "a = p + 1" using out[of a] ab a1 by auto
    have "\<not> c \<le> b" using out[of c] assms(3,4) \<open>a = p + 1\<close> by auto
    then have "b < c" by simp
    have "b + 1 \<in> U'" using hi \<open>a = p + 1\<close> ab by auto
    then have "c \<le> b + 1" using assms(2) by blast
    then show ?thesis using \<open>a = p + 1\<close> \<open>b < c\<close> by auto
  qed
next
  assume "(a, b) = (p + 1, c - 1) \<or> is_gap U' (a, b)"
  then show "is_gap ({s..p} \<union> U') (a, b)"
  proof
    assume "(a, b) = (p + 1, c - 1)"
    then show ?thesis using assms by (fastforce simp: is_gap_def)
  next
    assume G: "is_gap U' (a, b)"
    then have "a - 1 \<in> U'" by (auto simp: is_gap_def)
    then have "c \<le> a - 1" using assms(2) by blast
    then show ?thesis using G assms(4) by (auto simp: is_gap_def)
  qed
qed

lemma gap_single: "s \<le> p \<Longrightarrow> \<not> is_gap {s..p} (a, b)"
  by (auto simp: is_gap_def)

lemma run_single: "s \<le> p \<Longrightarrow> is_run {s..p} (a, b) \<longleftrightarrow> (a, b) = (s, p)"
  using run_split[of s p "{}" a b] by (auto simp: is_run_def)


lemma is_run_mem: "is_run U (a, b) \<Longrightarrow> a \<in> U"
  by (auto simp: is_run_def)

lemma is_gap_mem: "is_gap U (a, b) \<Longrightarrow> a - 1 \<in> U"
  by (auto simp: is_gap_def)

lemma scan_lines_spec:
  assumes "sorted_wrt (<) (p # cs)" "s \<le> p"
  shows "\<exists>s' p' R G. scan_lines cs s p rs gs = (s', p', rs @ R, gs @ G)
           \<and> set (R @ [(s', p')]) = {r. is_run ({s..p} \<union> set cs) r}
           \<and> set G = {g. is_gap ({s..p} \<union> set cs) g}
           \<and> sorted_wrt (<) (map fst (R @ [(s', p')]))
           \<and> sorted_wrt (<) (map fst G)"
  using assms
proof (induction cs arbitrary: s p rs gs)
  case Nil
  then show ?case
    by (auto simp: run_single gap_single)
next
  case (Cons c cs)
  have pc: "p < c" and srt: "sorted_wrt (<) (c # cs)" using Cons.prems(1) by auto
  show ?case
  proof (cases "c = p + 1")
    case True
    have U: "{s..c} \<union> set cs = {s..p} \<union> set (c # cs)"
      using True Cons.prems(2) by auto
    have "s \<le> c" using pc Cons.prems(2) by simp
    from Cons.IH[OF srt this, of rs gs] True U show ?thesis by simp
  next
    case False
    then have gap: "p + 1 < c" using pc by simp
    have U': "{c..c} \<union> set cs = set (c # cs)" by auto
    have far: "\<forall>u\<in>set (c # cs). p + 1 < u" using srt gap by auto
    have least: "\<forall>u\<in>set (c # cs). c \<le> u" using srt by auto
    obtain s' p' R G where
      eq: "scan_lines cs c c (rs @ [(s, p)]) (gs @ [(p + 1, c - 1)])
             = (s', p', (rs @ [(s, p)]) @ R, (gs @ [(p + 1, c - 1)]) @ G)"
      and R: "set (R @ [(s', p')]) = {r. is_run (set (c # cs)) r}"
      and G: "set G = {g. is_gap (set (c # cs)) g}"
      and sR: "sorted_wrt (<) (map fst (R @ [(s', p')]))"
      and sG: "sorted_wrt (<) (map fst G)"
      using Cons.IH[OF srt order_refl, of "rs @ [(s, p)]" "gs @ [(p + 1, c - 1)]"]
      unfolding U' by blast
    have R2: "set (((s, p) # R) @ [(s', p')]) = {r. is_run ({s..p} \<union> set (c # cs)) r}"
    proof -
      have "\<And>r. is_run ({s..p} \<union> set (c # cs)) r \<longleftrightarrow> r = (s, p) \<or> is_run (set (c # cs)) r"
        using run_split[OF Cons.prems(2) far] by (metis surj_pair)
      then show ?thesis using R by auto
    qed
    have G2: "set ((p + 1, c - 1) # G) = {g. is_gap ({s..p} \<union> set (c # cs)) g}"
    proof -
      have "\<And>g. is_gap ({s..p} \<union> set (c # cs)) g \<longleftrightarrow> g = (p + 1, c - 1) \<or> is_gap (set (c # cs)) g"
        using gap_split[OF Cons.prems(2) least _ gap] by (metis surj_pair list.set_intros(1))
      then show ?thesis using G by auto
    qed
    have sR2: "sorted_wrt (<) (map fst (((s, p) # R) @ [(s', p')]))"
    proof -
      have "\<forall>x\<in>set (R @ [(s', p')]). s < fst x"
      proof
        fix x assume "x \<in> set (R @ [(s', p')])"
        then have "is_run (set (c # cs)) (fst x, snd x)" using R by auto
        then have "fst x \<in> set (c # cs)" by (rule is_run_mem)
        then show "s < fst x" using far Cons.prems(2) by fastforce
      qed
      then show ?thesis using sR by auto
    qed
    have sG2: "sorted_wrt (<) (map fst ((p + 1, c - 1) # G))"
    proof -
      have "\<forall>x\<in>set G. p + 1 < fst x"
      proof
        fix x assume "x \<in> set G"
        then have "is_gap (set (c # cs)) (fst x, snd x)" using G by auto
        then have "fst x - 1 \<in> set (c # cs)" by (rule is_gap_mem)
        then show "p + 1 < fst x" using far by fastforce
      qed
      then show ?thesis using sG by auto
    qed
    have "scan_lines (c # cs) s p rs gs
            = (s', p', rs @ ((s, p) # R), gs @ ((p + 1, c - 1) # G))"
      using eq False gap by simp
    with R2 G2 sR2 sG2 show ?thesis by blast
  qed
qed


lemma py_index_first: "xs \<noteq> [] \<Longrightarrow> py_index xs 0 = Inr (hd xs)"
  by (cases xs) (simp_all add: py_index_def)

lemma py_index_last: "xs \<noteq> [] \<Longrightarrow> py_index xs (- 1) = Inr (last xs)"
proof -
  assume ne: "xs \<noteq> []"
  then have len: "1 \<le> length xs" by (cases xs) simp_all
  then have "nat (int (length xs) + - 1) = length xs - 1" by linarith
  moreover have "- int (length xs) \<le> - 1" using len by linarith
  ultimately show ?thesis using ne
    by (simp add: py_index_def last_conv_nth)
qed

lemma sorted_hd_Min: "sorted xs \<Longrightarrow> xs \<noteq> [] \<Longrightarrow> hd xs = Min (set xs)"
  by (cases xs) (auto intro!: Min_eqI[symmetric])

lemma sorted_last_Max: "sorted xs \<Longrightarrow> xs \<noteq> [] \<Longrightarrow> last xs = Max (set xs)"
proof (induction xs)
  case Nil
  then show ?case by simp
next
  case (Cons x xs)
  show ?case
  proof (cases "xs = []")
    case True
    then show ?thesis by simp
  next
    case False
    then have "last xs = Max (set xs)" using Cons by simp
    moreover have "x \<le> Max (set xs)" using Cons.prems False
      by (metis List.finite_set Max_ge_iff last_in_set calculation set_empty sorted_simps(2))
    ultimately show ?thesis using False by (simp add: max_def)
  qed
qed

text \<open>
  Claim C9. For a non-empty (finite) set of keys, \<open>find_gaps_and_ranges\<close> returns a
  report whose \<open>gaps\<close> are exactly the maximal runs of consecutive absent keys between
  the least and the greatest key, one pair \<open>(start, end)\<close> per run, whose \<open>ranges\<close>
  are exactly the maximal runs of consecutive present keys, both listed in ascending
  order without repetition, and whose \<open>missing_count\<close> is
  \<open>(max - min + 1)\<close> minus the number of distinct keys.
\<close>

theorem find_gaps_and_ranges_maximal_runs:
  assumes "finite S" "S \<noteq> {}"
  shows "\<exists>r. find_gaps_and_ranges S = Inr r
           \<and> set (ranges r) = {x. is_run S x}
           \<and> set (gaps r) = {g. is_gap S g}
           \<and> sorted_wrt (<) (map fst (ranges r))
           \<and> sorted_wrt (<) (map fst (gaps r))
           \<and> min_line r = Some (Min S)
           \<and> max_line r = Some (Max S)
           \<and> missing_count r = Some ((Max S - Min S + 1) - int (card S))"
proof -
  define xs where "xs = sorted_list_of_set S"
  have ne: "xs \<noteq> []" using assms by (simp add: xs_def)
  have setxs: "set xs = S" using assms by (simp add: xs_def)
  have srt: "sorted_wrt (<) xs" by (simp add: xs_def)
  then have srt': "sorted xs" by (simp add: xs_def)
  obtain x rest where xs: "xs = x # rest" using ne by (cases xs) auto
  have i0: "py_index xs 0 = Inr (Min S)"
    using py_index_first[OF ne] sorted_hd_Min[OF srt' ne] setxs by simp
  have i1: "py_index xs (- 1) = Inr (Max S)"
    using py_index_last[OF ne] sorted_last_Max[OF srt' ne] setxs by simp
  have xMin: "x = Min S" using sorted_hd_Min[OF srt' ne] setxs xs by simp
  have U: "{x..x} \<union> set rest = S" using setxs xs by auto
  obtain s' p' R G where
    eq: "scan_lines rest x x [] [] = (s', p', [] @ R, [] @ G)"
    and R: "set (R @ [(s', p')]) = {r. is_run S r}"
    and G: "set G = {g. is_gap S g}"
    and sR: "sorted_wrt (<) (map fst (R @ [(s', p')]))"
    and sG: "sorted_wrt (<) (map fst G)"
    using scan_lines_spec[of x rest x "[]" "[]"] srt xs U by auto
  have "find_gaps_and_ranges S =
          Inr \<lparr> ranges = R @ [(s', p')], gaps = G,
                min_line = Some (Min S), max_line = Some (Max S),
                total_expected = Some (Max S - Min S + 1),
                total_actual = Some (int (card S)),
                missing_count = Some ((Max S - Min S + 1) - int (card S)) \<rparr>"
    using assms(2) i0 i1 eq xs xMin
    unfolding find_gaps_and_ranges_def xs_def[symmetric] by (simp add: Let_def)
  then show ?thesis using R G sR sG by simp
qed

theorem find_gaps_and_ranges_maximal_runs_witness:
  "finite {1, 2, 5, 9 :: int} \<and> {1, 2, 5, 9 :: int} \<noteq> {}
   \<and> (\<exists>r. find_gaps_and_ranges {1, 2, 5, 9} = Inr r
        \<and> ranges r = [(1, 2), (5, 5), (9, 9)]
        \<and> gaps r = [(3, 4), (6, 8)]
        \<and> set (gaps r) = {g. is_gap {1, 2, 5, 9} g}
        \<and> set (ranges r) = {x. is_run {1, 2, 5, 9} x}
        \<and> missing_count r = Some 5)"
proof -
  have fin: "finite {1, 2, 5, 9 :: int}" and ne: "{1, 2, 5, 9 :: int} \<noteq> {}" by simp_all
  have ev: "find_gaps_and_ranges {1, 2, 5, 9}
              = Inr \<lparr> ranges = [(1, 2), (5, 5), (9, 9)], gaps = [(3, 4), (6, 8)],
                      min_line = Some 1, max_line = Some 9, total_expected = Some 9,
                      total_actual = Some 4, missing_count = Some 5 \<rparr>"
    by (simp add: find_gaps_and_ranges_def py_index_def)
  show ?thesis
    using find_gaps_and_ranges_maximal_runs[OF fin ne] fin ne ev by auto
qed

text \<open>
  Claim C10. On the empty key set \<open>find_gaps_and_ranges\<close> returns normally (no
  \<open>IndexError\<close> from \<open>sorted_lines[0]\<close>): empty \<open>ranges\<close> and \<open>gaps\<close>, and
  \<open>None\<close> for \<open>min\<close> and \<open>max\<close>.
\<close>

theorem find_gaps_and_ranges_empty:
  "find_gaps_and_ranges {} =
     Inr \<lparr> ranges = [], gaps = [], min_line = None, max_line = None,
           total_expected = None, total_actual = None, missing_count = None \<rparr>"
  by (simp add: find_gaps_and_ranges_def)

section \<open>Merging: proofs\<close>

lemma map_exn_all2:
  assumes "\<forall>x\<in>set xs. \<exists>y. f x = Inr y \<and> P x y"
  shows "\<exists>ys. map_exn f xs = Inr ys \<and> list_all2 P xs ys"
  using assms
proof (induction xs)
  case Nil
  then show ?case by simp
next
  case (Cons x xs)
  then obtain y where y: "f x = Inr y" "P x y" by auto
  from Cons obtain ys where ys: "map_exn f xs = Inr ys" "list_all2 P xs ys" by auto
  show ?case using y ys by simp
qed

lemma dict_item_present:
  assumes "k \<in> keys d"
  shows "\<exists>v. dict_item d k = Inr v \<and> map_of d k = Some v"
proof -
  have "map_of d k \<noteq> None" using assms by (simp add: keys_def map_of_eq_None_iff)
  then show ?thesis by (auto simp: dict_item_def)
qed

lemma finite_keys: "finite (keys d)"
  by (simp add: keys_def)

lemma merge_three_common:
  assumes ne: "keys ins \<inter> keys inp \<inter> keys out \<noteq> {}"
  shows "\<exists>recs ks. merge_results_merged_results ins inp out = Inr (Some recs)
           \<and> sorted_wrt (<) ks \<and> set ks = keys ins \<inter> keys inp \<inter> keys out
           \<and> length recs = card (keys ins \<inter> keys inp \<inter> keys out)
           \<and> list_all2 (\<lambda>k r. \<exists>a b c. map_of ins k = Some a \<and> map_of inp k = Some b
                                  \<and> map_of out k = Some c
                                  \<and> r = [(''instruction'', a), (''input'', b), (''output'', c)])
                 ks recs"
proof -
  define S where "S = keys ins \<inter> keys inp \<inter> keys out"
  define ks where "ks = sorted_list_of_set S"
  define f where "f = (\<lambda>line_num.
                  case dict_item ins line_num of Inl e \<Rightarrow> Inl e | Inr a \<Rightarrow>
                  case dict_item inp line_num of Inl e \<Rightarrow> Inl e | Inr b \<Rightarrow>
                  case dict_item out line_num of Inl e \<Rightarrow> Inl e | Inr c \<Rightarrow>
                  Inr (merged_entry a b c))"
  define P where "P = (\<lambda>k r. \<exists>a b c. map_of ins k = Some a \<and> map_of inp k = Some b
                                  \<and> map_of out k = Some c
                                  \<and> r = [(''instruction'', a), (''input'', b), (''output'', c)])"
  have fin: "finite S" unfolding S_def using finite_keys by blast
  have set_ks: "set ks = S" and srt: "sorted_wrt (<) ks" and len: "length ks = card S"
    using fin by (simp_all add: ks_def)
  have "\<forall>k\<in>set ks. \<exists>y. f k = Inr y \<and> P k y"
  proof
    fix k assume "k \<in> set ks"
    then have k: "k \<in> keys ins" "k \<in> keys inp" "k \<in> keys out"
      using set_ks by (auto simp: S_def)
    obtain a b c where "dict_item ins k = Inr a" "map_of ins k = Some a"
      "dict_item inp k = Inr b" "map_of inp k = Some b"
      "dict_item out k = Inr c" "map_of out k = Some c"
      using dict_item_present[OF k(1)] dict_item_present[OF k(2)] dict_item_present[OF k(3)]
      by blast
    then show "\<exists>y. f k = Inr y \<and> P k y"
      by (simp add: f_def P_def merged_entry_def)
  qed
  then obtain recs where recs: "map_exn f ks = Inr recs" "list_all2 P ks recs"
    using map_exn_all2 by blast
  have "length recs = card S" using recs(2) len by (simp add: list_all2_lengthD)
  moreover have "merge_results_merged_results ins inp out = Inr (Some recs)"
    using ne recs(1)
    unfolding merge_results_merged_results_def Let_def S_def[symmetric] ks_def[symmetric]
      f_def[symmetric]
    by simp
  ultimately show ?thesis using srt set_ks recs(2) unfolding S_def P_def by blast
qed

lemma merge_two_common:
  assumes ne: "keys ins \<inter> keys out \<noteq> {}"
  shows "\<exists>recs ks. merge_results_instructOutput ins out = Inr (Some recs)
           \<and> sorted_wrt (<) ks \<and> set ks = keys ins \<inter> keys out
           \<and> length recs = card (keys ins \<inter> keys out)
           \<and> list_all2 (\<lambda>k r. \<exists>a c. map_of ins k = Some a \<and> map_of out k = Some c
                                  \<and> r = [(''instruction'', a), (''input'', []), (''output'', c)])
                 ks recs"
proof -
  define S where "S = keys ins \<inter> keys out"
  define ks where "ks = sorted_list_of_set S"
  define f where "f = (\<lambda>line_num.
                  case dict_item ins line_num of Inl e \<Rightarrow> Inl e | Inr a \<Rightarrow>
                  case dict_item out line_num of Inl e \<Rightarrow> Inl e | Inr c \<Rightarrow>
                  Inr (merged_entry a [] c))"
  define P where "P = (\<lambda>k r. \<exists>a c. map_of ins k = Some a \<and> map_of out k = Some c
                                  \<and> r = [(''instruction'', a), (''input'', []), (''output'', c)])"
  have fin: "finite S" unfolding S_def using finite_keys by blast
  have set_ks: "set ks = S" and srt: "sorted_wrt (<) ks" and len: "length ks = card S"
    using fin by (simp_all add: ks_def)
  have "\<forall>k\<in>set ks. \<exists>y. f k = Inr y \<and> P k y"
  proof
    fix k assume "k \<in> set ks"
    then have k: "k \<in> keys ins" "k \<in> keys out"
      using set_ks by (auto simp: S_def)
    obtain a c where "dict_item ins k = Inr a" "map_of ins k = Some a"
      "dict_item out k = Inr c" "map_of out k = Some c"
      using dict_item_present[OF k(1)] dict_item_present[OF k(2)]
      by blast
    then show "\<exists>y. f k = Inr y \<and> P k y"
      by (simp add: f_def P_def merged_entry_def)
  qed
  then obtain recs where recs: "map_exn f ks = Inr recs" "list_all2 P ks recs"
    using map_exn_all2 by blast
  have "length recs = card S" using recs(2) len by (simp add: list_all2_lengthD)
  moreover have "merge_results_instructOutput ins out = Inr (Some recs)"
    using ne recs(1)
    unfolding merge_results_instructOutput_def Let_def S_def[symmetric] ks_def[symmetric]
      f_def[symmetric]
    by simp
  ultimately show ?thesis using srt set_ks recs(2) unfolding S_def P_def by blast
qed

text \<open>
  Claim C1. Let \<open>S\<close> be the intersection of the key sets of the field dictionaries.
  The merge of merged\_results.py (three fields) and that of instructOutput.py (two
  fields, \<open>input\<close> always empty) return normally. When \<open>S\<close> is not empty they produce
  exactly \<open>card S\<close> entries: the keys of \<open>S\<close> taken in strictly ascending order give
  one entry each, and that entry has exactly the fields \<open>instruction\<close>, \<open>input\<close>,
  \<open>output\<close>, holding the strings stored for the key. When \<open>S\<close> is empty they return
  early and produce no entry.
\<close>

theorem merge_one_record_per_common_key:
  "(\<exists>r. merge_results_merged_results ins inp out = Inr r
      \<and> (case r of
            None \<Rightarrow> keys ins \<inter> keys inp \<inter> keys out = {}
          | Some recs \<Rightarrow>
              length recs = card (keys ins \<inter> keys inp \<inter> keys out)
              \<and> (\<exists>ks. sorted_wrt (<) ks \<and> set ks = keys ins \<inter> keys inp \<inter> keys out
                    \<and> list_all2 (\<lambda>k r. \<exists>a b c. map_of ins k = Some a \<and> map_of inp k = Some b
                            \<and> map_of out k = Some c
                            \<and> r = [(''instruction'', a), (''input'', b), (''output'', c)])
                          ks recs)))
   \<and> (\<exists>r. merge_results_instructOutput ins out = Inr r
      \<and> (case r of
            None \<Rightarrow> keys ins \<inter> keys out = {}
          | Some recs \<Rightarrow>
              length recs = card (keys ins \<inter> keys out)
              \<and> (\<exists>ks. sorted_wrt (<) ks \<and> set ks = keys ins \<inter> keys out
                    \<and> list_all2 (\<lambda>k r. \<exists>a c. map_of ins k = Some a \<and> map_of out k = Some c
                            \<and> r = [(''instruction'', a), (''input'', []), (''output'', c)])
                          ks recs)))"
proof (rule conjI)
  show "\<exists>r. merge_results_merged_results ins inp out = Inr r
      \<and> (case r of
            None \<Rightarrow> keys ins \<inter> keys inp \<inter> keys out = {}
          | Some recs \<Rightarrow>
              length recs = card (keys ins \<inter> keys inp \<inter> keys out)
              \<and> (\<exists>ks. sorted_wrt (<) ks \<and> set ks = keys ins \<inter> keys inp \<inter> keys out
                    \<and> list_all2 (\<lambda>k r. \<exists>a b c. map_of ins k = Some a \<and> map_of inp k = Some b
                            \<and> map_of out k = Some c
                            \<and> r = [(''instruction'', a), (''input'', b), (''output'', c)])
                          ks recs))"
  proof (cases "keys ins \<inter> keys inp \<inter> keys out = {}")
    case True
    then have "merge_results_merged_results ins inp out = Inr None"
      by (simp add: merge_results_merged_results_def)
    then show ?thesis using True by simp
  next
    case False
    from merge_three_common[OF False] show ?thesis by force
  qed
next
  show "\<exists>r. merge_results_instructOutput ins out = Inr r
      \<and> (case r of
            None \<Rightarrow> keys ins \<inter> keys out = {}
          | Some recs \<Rightarrow>
              length recs = card (keys ins \<inter> keys out)
              \<and> (\<exists>ks. sorted_wrt (<) ks \<and> set ks = keys ins \<inter> keys out
                    \<and> list_all2 (\<lambda>k r. \<exists>a c. map_of ins k = Some a \<and> map_of out k = Some c
                            \<and> r = [(''instruction'', a), (''input'', []), (''output'', c)])
                          ks recs))"
  proof (cases "keys ins \<inter> keys out = {}")
    case True
    then have "merge_results_instructOutput ins out = Inr None"
      by (simp add: merge_results_instructOutput_def)
    then show ?thesis using True by simp
  next
    case False
    from merge_two_common[OF False] show ?thesis by force
  qed
qed

theorem merge_one_record_per_common_key_witness:
  "merge_results_merged_results
     [(1, ''i1''), (2, ''i2''), (3, ''i3''), (5, ''i5'')]
     [(3, ''n3''), (1, ''n1''), (2, ''n2'')]
     [(1, ''o1''), (2, ''o2''), (3, ''o3''), (4, ''o4'')]
   = Inr (Some [[(''instruction'', ''i1''), (''input'', ''n1''), (''output'', ''o1'')],
                [(''instruction'', ''i2''), (''input'', ''n2''), (''output'', ''o2'')],
                [(''instruction'', ''i3''), (''input'', ''n3''), (''output'', ''o3'')]])
   \<and> card (keys [(1::int, ''i1''), (2, ''i2''), (3, ''i3''), (5, ''i5'')]
            \<inter> keys [(3, ''n3''), (1, ''n1''), (2, ''n2'')]
            \<inter> keys [(1, ''o1''), (2, ''o2''), (3, ''o3''), (4, ''o4'')]) = 3"
proof -
  have ev: "merge_results_merged_results
     [(1, ''i1''), (2, ''i2''), (3, ''i3''), (5, ''i5'')]
     [(3, ''n3''), (1, ''n1''), (2, ''n2'')]
     [(1, ''o1''), (2, ''o2''), (3, ''o3''), (4, ''o4'')]
   = Inr (Some [[(''instruction'', ''i1''), (''input'', ''n1''), (''output'', ''o1'')],
                [(''instruction'', ''i2''), (''input'', ''n2''), (''output'', ''o2'')],
                [(''instruction'', ''i3''), (''input'', ''n3''), (''output'', ''o3'')]])"
    by (simp add: merge_results_merged_results_def keys_def dict_item_def merged_entry_def)
  have "\<exists>r. merge_results_merged_results
     [(1, ''i1''), (2, ''i2''), (3, ''i3''), (5, ''i5'')]
     [(3, ''n3''), (1, ''n1''), (2, ''n2'')]
     [(1, ''o1''), (2, ''o2''), (3, ''o3''), (4, ''o4'')] = Inr r
      \<and> (case r of
            None \<Rightarrow> True
          | Some recs \<Rightarrow>
              length recs = card (keys [(1::int, ''i1''), (2, ''i2''), (3, ''i3''), (5, ''i5'')]
            \<inter> keys [(3, ''n3''), (1, ''n1''), (2, ''n2'')]
            \<inter> keys [(1, ''o1''), (2, ''o2''), (3, ''o3''), (4, ''o4'')]))"
    using merge_one_record_per_common_key
      [of "[(1, ''i1''), (2, ''i2''), (3, ''i3''), (5, ''i5'')]"
          "[(3, ''n3''), (1, ''n1''), (2, ''n2'')]"
          "[(1, ''o1''), (2, ''o2''), (3, ''o3''), (4, ''o4'')]"]
    by (auto split: option.splits)
  then show ?thesis unfolding ev by simp
qed

section \<open>Building a field stream: proofs\<close>

lemma search_patterns_Nil: "search_patterns pats [] = None"
  by (induction pats) (simp_all add: match_line_at_def match_digits_end_def)

lemma py_get_well_formed:
  assumes "well_formed_entry e"
  shows "py_get e ''custom_id'' (JStr dflt)
           = Inr (JStr (case entry_id e of Some s \<Rightarrow> s | None \<Rightarrow> dflt))"
  using assms
  by (auto simp: well_formed_entry_def entry_id_def member_def split: json.splits option.splits)

lemma decode_well_formed:
  assumes "well_formed_entry e"
  shows "\<exists>cid. py_get e ''custom_id'' (JStr []) = Inr cid
           \<and> line_number_by pats cid = Inr (entry_key pats e)"
  using py_get_well_formed[OF assms, of "[]"]
  by (auto simp: line_number_by_def entry_key_def search_patterns_Nil split: option.splits)

text \<open>What one iteration does to the dictionary when nothing is raised.\<close>

lemma load_results_step:
  assumes "well_formed_entry e" "\<forall>x. \<exists>s. extr x = Inr s"
  shows "load_results (line_number_by pats) extr (e # rest) d
           = load_results (line_number_by pats) extr rest
               (case entry_key pats e of
                  None \<Rightarrow> d
                | Some k \<Rightarrow> AList.update k (text_of extr e) d)"
proof -
  obtain cid where cid: "py_get e ''custom_id'' (JStr []) = Inr cid"
    "line_number_by pats cid = Inr (entry_key pats e)"
    using decode_well_formed[OF assms(1)] by blast
  obtain s where s: "extr e = Inr s" using assms(2) by blast
  then have "text_of extr e = s" by (simp add: text_of_def)
  then show ?thesis using cid s by (simp split: option.splits)
qed

lemma load_results_returns:
  assumes "\<forall>e\<in>set results. well_formed_entry e" "\<forall>x. \<exists>s. extr x = Inr s"
  shows "\<exists>d'. load_results (line_number_by pats) extr results d = Inr d'
           \<and> keys d' = keys d \<union> {k. \<exists>e\<in>set results. entry_key pats e = Some k}"
  using assms(1)
proof (induction results arbitrary: d)
  case Nil
  then show ?case by simp
next
  case (Cons e rest)
  have wf: "well_formed_entry e" and wfr: "\<forall>e\<in>set rest. well_formed_entry e"
    using Cons.prems by simp_all
  show ?case
  proof (cases "entry_key pats e")
    case None
    then show ?thesis
      using Cons.IH[OF wfr, of d] load_results_step[OF wf assms(2), of pats rest d]
      by auto
  next
    case (Some k)
    have "keys (AList.update k (text_of extr e) d) = insert k (keys d)"
      by (simp add: keys_def AList.dom_update)
    then show ?thesis
      using Cons.IH[OF wfr, of "AList.update k (text_of extr e) d"]
        load_results_step[OF wf assms(2), of pats rest d] Some
      by auto
  qed
qed

lemma load_results_append:
  assumes "\<forall>e\<in>set xs. well_formed_entry e" "\<forall>x. \<exists>s. extr x = Inr s"
  shows "load_results (line_number_by pats) extr (xs @ ys) d
           = (case load_results (line_number_by pats) extr xs d of
                Inl x \<Rightarrow> Inl x
              | Inr d' \<Rightarrow> load_results (line_number_by pats) extr ys d')"
  using assms(1)
proof (induction xs arbitrary: d)
  case Nil
  then show ?case by simp
next
  case (Cons e rest)
  have wf: "well_formed_entry e" and wfr: "\<forall>e\<in>set rest. well_formed_entry e"
    using Cons.prems by simp_all
  show ?case
    using Cons.IH[OF wfr] load_results_step[OF wf assms(2), of pats]
    by simp
qed

lemma load_results_skip:
  assumes "\<forall>x\<in>set pre. well_formed_entry x" "well_formed_entry e"
    "\<forall>x. \<exists>s. extr x = Inr s" "entry_key pats e = None"
  shows "load_results (line_number_by pats) extr (pre @ e # post) d
           = load_results (line_number_by pats) extr (pre @ post) d"
  using load_results_append[OF assms(1,3), of pats]
    load_results_step[OF assms(2,3), of pats post] assms(4)
  by (simp split: sum.splits)

lemma load_results_keeps:
  assumes "\<forall>e\<in>set results. well_formed_entry e" "\<forall>x. \<exists>s. extr x = Inr s"
    "\<forall>e\<in>set results. entry_key pats e \<noteq> Some k"
    "load_results (line_number_by pats) extr results d = Inr d'"
  shows "map_of d' k = map_of d k"
  using assms(1,3,4)
proof (induction results arbitrary: d)
  case Nil
  then show ?case by simp
next
  case (Cons e rest)
  have wf: "well_formed_entry e" and wfr: "\<forall>e\<in>set rest. well_formed_entry e"
    and nk: "entry_key pats e \<noteq> Some k" and nkr: "\<forall>e\<in>set rest. entry_key pats e \<noteq> Some k"
    using Cons.prems by simp_all
  show ?case
  proof (cases "entry_key pats e")
    case None
    then show ?thesis
      using Cons.IH[OF wfr nkr, of d] Cons.prems(3)
        load_results_step[OF wf assms(2), of pats rest d]
      by simp
  next
    case (Some j)
    then have "j \<noteq> k" using nk by simp
    then have "map_of (AList.update j (text_of extr e) d) k = map_of d k"
      by (simp add: AList.update_conv')
    then show ?thesis
      using Cons.IH[OF wfr nkr, of "AList.update j (text_of extr e) d"] Cons.prems(3)
        load_results_step[OF wf assms(2), of pats rest d] Some
      by simp
  qed
qed

lemma load_results_last_wins:
  assumes "\<forall>x\<in>set (pre @ e # post). well_formed_entry x" "\<forall>x. \<exists>s. extr x = Inr s"
    "entry_key pats e = Some k" "\<forall>x\<in>set post. entry_key pats x \<noteq> Some k"
  shows "\<exists>d'. load_results (line_number_by pats) extr (pre @ e # post) d = Inr d'
           \<and> map_of d' k = Some (text_of extr e)"
proof -
  have wfpre: "\<forall>x\<in>set pre. well_formed_entry x" and wfe: "well_formed_entry e"
    and wfpost: "\<forall>x\<in>set post. well_formed_entry x"
    using assms(1) by simp_all
  obtain d1 where d1: "load_results (line_number_by pats) extr pre d = Inr d1"
    using load_results_returns[OF wfpre assms(2)] by blast
  define d2 where "d2 = AList.update k (text_of extr e) d1"
  obtain d3 where d3: "load_results (line_number_by pats) extr post d2 = Inr d3"
    using load_results_returns[OF wfpost assms(2)] by blast
  have "map_of d3 k = map_of d2 k"
    by (rule load_results_keeps[OF wfpost assms(2,4) d3])
  moreover have "map_of d2 k = Some (text_of extr e)"
    by (simp add: d2_def AList.update_conv')
  moreover have "load_results (line_number_by pats) extr (pre @ e # post) d = Inr d3"
    using load_results_append[OF wfpre assms(2), of pats "e # post" d] d1
      load_results_step[OF wfe assms(2), of pats post d1] assms(3) d3
    by (simp add: d2_def)
  ultimately show ?thesis by simp
qed

lemma load_files_concat:
  assumes "\<forall>f\<in>set files. \<forall>e\<in>set f. well_formed_entry e" "\<forall>x. \<exists>s. extr x = Inr s"
  shows "load_files (line_number_by pats) extr files d
           = load_results (line_number_by pats) extr (concat files) d"
  using assms(1)
proof (induction files arbitrary: d)
  case Nil
  then show ?case by simp
next
  case (Cons f files)
  have wf: "\<forall>e\<in>set f. well_formed_entry e"
    and wfr: "\<forall>f\<in>set files. \<forall>e\<in>set f. well_formed_entry e"
    using Cons.prems by simp_all
  show ?case
    using Cons.IH[OF wfr] load_results_append[OF wf assms(2), of pats "concat files" d]
    by (simp split: sum.splits)
qed

section \<open>Per-file analysis: proofs\<close>

lemma search_line_set: "search_line lit s = Some g \<Longrightarrow> set lit \<subseteq> set s"
proof (induction s)
  case Nil
  then show ?case by (simp add: match_line_at_def startswith_def split: if_splits)
next
  case (Cons c cs)
  show ?case
  proof (cases "match_line_at lit (c # cs)")
    case None
    then show ?thesis using Cons by auto
  next
    case (Some h)
    then have "take (length lit) (c # cs) = lit"
      by (simp add: match_line_at_def startswith_def split: if_splits)
    then show ?thesis by (metis set_take_subset)
  qed
qed

lemma str_int_nat: "str_int (int i) = digits_of_nat i"
  by (simp add: str_int_def)

lemma unknown_id_without_l: "CHR ''l'' \<notin> set (''unknown_'' @ str_int (int i))"
proof -
  have "\<not> is_digit (CHR ''l'')" by (simp add: is_digit_def)
  then have "CHR ''l'' \<notin> set (digits_of_nat i)" using digits_of_nat_digits[of i] by blast
  then show ?thesis by (simp add: str_int_nat)
qed

lemma search_patterns_unknown:
  "search_patterns patterns_mismatch (''unknown_'' @ str_int (int i)) = None"
proof -
  have "search_line lit (''unknown_'' @ str_int (int i)) = None"
    if "CHR ''l'' \<in> set lit" for lit
  proof (cases "search_line lit (''unknown_'' @ str_int (int i))")
    case None
    then show ?thesis .
  next
    case (Some g)
    then show ?thesis using search_line_set[OF Some] that unknown_id_without_l by blast
  qed
  then have "search_line ''_line_'' (''unknown_'' @ str_int (int i)) = None"
    "search_line ''alpaca_data_line_'' (''unknown_'' @ str_int (int i)) = None"
    "search_line ''line_'' (''unknown_'' @ str_int (int i)) = None"
    "search_line ''data_line_'' (''unknown_'' @ str_int (int i)) = None"
    by simp_all
  then show ?thesis unfolding patterns_mismatch_def search_patterns.simps by simp
qed

lemma analyze_entries_step:
  assumes "well_formed_entry e"
  shows "\<exists>cid. analyze_entries loads msg (e # rest) i st
           = analyze_entries loads msg rest (Suc i)
               (loop_body cid (entry_key patterns_mismatch e)
                  (text_of (extract_text_from_result_mismatch loads msg) e) i st)"
proof -
  define dflt where "dflt = ''unknown_'' @ str_int (int i)"
  define cid where "cid = JStr (case entry_id e of Some s \<Rightarrow> s | None \<Rightarrow> dflt)"
  have g: "py_get e ''custom_id'' (JStr dflt) = Inr cid"
    using py_get_well_formed[OF assms] by (simp add: cid_def)
  have k: "extract_line_number_from_custom_id_mismatch cid = Inr (entry_key patterns_mismatch e)"
    using search_patterns_unknown[of i]
    by (simp add: extract_line_number_from_custom_id_mismatch_def line_number_by_def
        entry_key_def cid_def dflt_def split: option.splits)
  obtain s where s: "extract_text_from_result_mismatch loads msg e = Inr s"
    using extract_always_returns(2) by blast
  then have "text_of (extract_text_from_result_mismatch loads msg) e = s"
    by (simp add: text_of_def)
  then show ?thesis using g k s unfolding dflt_def by auto
qed

lemma loop_body_tallies:
  "failed_extractions (fst (loop_body cid key text i st))
     = failed_extractions (fst st) + (if tally_of text = Failed then 1 else 0)"
  "empty_extractions (fst (loop_body cid key text i st))
     = empty_extractions (fst st) + (if tally_of text = Empty then 1 else 0)"
  "successful_extractions (fst (loop_body cid key text i st))
     = successful_extractions (fst st) + (if tally_of text = Successful then 1 else 0)"
  "total_entries (fst (loop_body cid key text i st)) = total_entries (fst st)"
  by (cases st; cases key;
      simp add: loop_body_def record_line_def classify_def tally_of_def strip_def)+

lemma loop_body_lines:
  "line_numbers (fst (loop_body cid key text i st))
     = line_numbers (fst st) \<union> (case key of None \<Rightarrow> {} | Some k \<Rightarrow> {k})"
  by (cases st; cases key; simp add: loop_body_def record_line_def classify_def)

lemma loop_body_counts:
  "snd (loop_body cid key text i st)
     = (case key of None \<Rightarrow> snd st
        | Some k \<Rightarrow> AList.update k (count_of (snd st) k + 1) (snd st))"
  by (cases st; cases key; simp add: loop_body_def record_line_def count_of_def)

lemma analyze_entries_returns:
  assumes "\<forall>e\<in>set results. well_formed_entry e"
  shows "\<exists>st'. analyze_entries loads msg results i st = Inr st'
     \<and> failed_extractions (fst st') = failed_extractions (fst st)
         + length (filter (\<lambda>e. tally_of (text_of (extract_text_from_result_mismatch loads msg) e) = Failed) results)
     \<and> empty_extractions (fst st') = empty_extractions (fst st)
         + length (filter (\<lambda>e. tally_of (text_of (extract_text_from_result_mismatch loads msg) e) = Empty) results)
     \<and> successful_extractions (fst st') = successful_extractions (fst st)
         + length (filter (\<lambda>e. tally_of (text_of (extract_text_from_result_mismatch loads msg) e) = Successful) results)
     \<and> total_entries (fst st') = total_entries (fst st)
     \<and> line_numbers (fst st')
         = line_numbers (fst st) \<union> {k. \<exists>e\<in>set results. entry_key patterns_mismatch e = Some k}"
  using assms
proof (induction results arbitrary: i st)
  case Nil
  then show ?case by simp
next
  case (Cons e rest)
  have wf: "well_formed_entry e" and wfr: "\<forall>e\<in>set rest. well_formed_entry e"
    using Cons.prems by simp_all
  obtain cid where step: "analyze_entries loads msg (e # rest) i st
           = analyze_entries loads msg rest (Suc i)
               (loop_body cid (entry_key patterns_mismatch e)
                  (text_of (extract_text_from_result_mismatch loads msg) e) i st)"
    using analyze_entries_step[OF wf] by blast
  have lines: "line_numbers (fst st) \<union> (case entry_key patterns_mismatch e of None \<Rightarrow> {} | Some k \<Rightarrow> {k})
                 \<union> {k. \<exists>x\<in>set rest. entry_key patterns_mismatch x = Some k}
               = line_numbers (fst st) \<union> {k. \<exists>x\<in>set (e # rest). entry_key patterns_mismatch x = Some k}"
    by (auto split: option.splits)
  show ?case
    unfolding step
    using Cons.IH[OF wfr, of "Suc i" "loop_body cid (entry_key patterns_mismatch e)
                  (text_of (extract_text_from_result_mismatch loads msg) e) i st"]
    unfolding loop_body_tallies loop_body_lines lines
    by auto
qed

lemma analyze_entries_counts:
  assumes "\<forall>e\<in>set results. well_formed_entry e"
    "analyze_entries loads msg results i st = Inr st'"
  shows "keys (snd st') = keys (snd st) \<union> {k. \<exists>e\<in>set results. entry_key patterns_mismatch e = Some k}
     \<and> (\<forall>k. count_of (snd st') k = count_of (snd st) k + occurrences patterns_mismatch results k)
     \<and> (distinct (map fst (snd st)) \<longrightarrow> distinct (map fst (snd st')))"
  using assms
proof (induction results arbitrary: i st)
  case Nil
  then show ?case by (simp add: occurrences_def)
next
  case (Cons e rest)
  have wf: "well_formed_entry e" and wfr: "\<forall>e\<in>set rest. well_formed_entry e"
    using Cons.prems by simp_all
  obtain cid where step: "analyze_entries loads msg (e # rest) i st
           = analyze_entries loads msg rest (Suc i)
               (loop_body cid (entry_key patterns_mismatch e)
                  (text_of (extract_text_from_result_mismatch loads msg) e) i st)"
    using analyze_entries_step[OF wf] by blast
  define st1 where "st1 = loop_body cid (entry_key patterns_mismatch e)
                  (text_of (extract_text_from_result_mismatch loads msg) e) i st"
  have run: "analyze_entries loads msg rest (Suc i) st1 = Inr st'"
    using Cons.prems(2) step by (simp add: st1_def)
  note IH = Cons.IH[OF wfr run]
  have c1: "snd st1 = (case entry_key patterns_mismatch e of None \<Rightarrow> snd st
        | Some k \<Rightarrow> AList.update k (count_of (snd st) k + 1) (snd st))"
    by (simp add: st1_def loop_body_counts)
  show ?case
  proof (cases "entry_key patterns_mismatch e")
    case None
    then have "snd st1 = snd st" using c1 by simp
    then show ?thesis using IH None by (auto simp: occurrences_def)
  next
    case (Some j)
    then have s1: "snd st1 = AList.update j (count_of (snd st) j + 1) (snd st)"
      using c1 by simp
    have k1: "keys (snd st1) = insert j (keys (snd st))"
      by (simp add: s1 keys_def AList.dom_update)
    have cnt: "count_of (snd st1) k = count_of (snd st) k + (if k = j then 1 else 0)" for k
      by (simp add: s1 count_of_def AList.update_conv')
    have d1: "distinct (map fst (snd st)) \<longrightarrow> distinct (map fst (snd st1))"
      by (simp add: s1 AList.distinct_update)
    have occ: "occurrences patterns_mismatch (e # rest) k
                 = (if k = j then 1 else 0) + occurrences patterns_mismatch rest k" for k
      using Some by (auto simp: occurrences_def)
    show ?thesis using IH k1 cnt d1 occ Some by auto
  qed
qed

lemma analyze_file_entries_summary:
  assumes wf: "\<forall>e\<in>set results. well_formed_entry e"
  shows "\<exists>a. analyze_file_entries loads msg results = Inr a
     \<and> failed_extractions a
         = length (filter (\<lambda>e. tally_of (text_of (extract_text_from_result_mismatch loads msg) e) = Failed) results)
     \<and> empty_extractions a
         = length (filter (\<lambda>e. tally_of (text_of (extract_text_from_result_mismatch loads msg) e) = Empty) results)
     \<and> successful_extractions a
         = length (filter (\<lambda>e. tally_of (text_of (extract_text_from_result_mismatch loads msg) e) = Successful) results)
     \<and> total_entries a = length results
     \<and> line_numbers a = {k. \<exists>e\<in>set results. entry_key patterns_mismatch e = Some k}
     \<and> distinct (map fst (duplicate_line_numbers a))
     \<and> set (duplicate_line_numbers a)
         = {(k, c). c = occurrences patterns_mismatch results k \<and> 1 < c}"
proof -
  define st0 :: "analysis \<times> (int \<times> nat) list" where
    "st0 = (\<lparr> total_entries = length results, line_numbers = {}, custom_ids = [],
                successful_extractions = 0, failed_extractions = 0, empty_extractions = 0,
                error_entries = [], duplicate_line_numbers = [], entries_by_line = [] \<rparr>, [])"
  obtain st' where run: "analyze_entries loads msg results 0 st0 = Inr st'"
    and f: "failed_extractions (fst st') = failed_extractions (fst st0)
         + length (filter (\<lambda>e. tally_of (text_of (extract_text_from_result_mismatch loads msg) e) = Failed) results)"
    and e: "empty_extractions (fst st') = empty_extractions (fst st0)
         + length (filter (\<lambda>e. tally_of (text_of (extract_text_from_result_mismatch loads msg) e) = Empty) results)"
    and s: "successful_extractions (fst st') = successful_extractions (fst st0)
         + length (filter (\<lambda>e. tally_of (text_of (extract_text_from_result_mismatch loads msg) e) = Successful) results)"
    and t: "total_entries (fst st') = total_entries (fst st0)"
    and l: "line_numbers (fst st')
         = line_numbers (fst st0) \<union> {k. \<exists>e\<in>set results. entry_key patterns_mismatch e = Some k}"
    using analyze_entries_returns[OF wf, of loads msg 0 st0] by blast
  have cnt: "keys (snd st') = {k. \<exists>e\<in>set results. entry_key patterns_mismatch e = Some k}"
    "\<And>k. count_of (snd st') k = occurrences patterns_mismatch results k"
    "distinct (map fst (snd st'))"
    using analyze_entries_counts[OF wf run] by (simp_all add: st0_def keys_def count_of_def)
  obtain a' c' where st': "st' = (a', c')" by (cases st')
  define a where "a = a'\<lparr> duplicate_line_numbers := filter (\<lambda>kc. snd kc > 1) c' \<rparr>"
  have res: "analyze_file_entries loads msg results = Inr a"
    using run by (simp add: analyze_file_entries_def st0_def st' a_def)
  have dist: "distinct (map fst (duplicate_line_numbers a))"
    using cnt(3) by (simp add: a_def st' distinct_map_filter)
  have mem: "(k, c) \<in> set c' \<longleftrightarrow> c = occurrences patterns_mismatch results k \<and> 0 < c" for k c
  proof
    assume in_c: "(k, c) \<in> set c'"
    then have "map_of c' k = Some c" using cnt(3) by (simp add: st')
    then have "c = occurrences patterns_mismatch results k"
      using cnt(2)[of k] by (simp add: count_of_def st')
    moreover have "k \<in> keys c'" using in_c by (force simp: keys_def)
    then have "\<exists>e\<in>set results. entry_key patterns_mismatch e = Some k"
      using cnt(1) by (simp add: st')
    then have "0 < occurrences patterns_mismatch results k"
      by (auto simp: occurrences_def filter_empty_conv)
    ultimately show "c = occurrences patterns_mismatch results k \<and> 0 < c" by simp
  next
    assume h: "c = occurrences patterns_mismatch results k \<and> 0 < c"
    then have "\<exists>e\<in>set results. entry_key patterns_mismatch e = Some k"
      by (auto simp: occurrences_def filter_empty_conv)
    then have "k \<in> keys c'" using cnt(1) by (simp add: st')
    then have "map_of c' k \<noteq> None" by (simp add: keys_def map_of_eq_None_iff)
    then obtain c0 where c0: "map_of c' k = Some c0" by blast
    then have "c0 = c" using cnt(2)[of k] h by (simp add: count_of_def st')
    then show "(k, c) \<in> set c'" using c0 by (simp add: map_of_SomeD)
  qed
  have dups: "set (duplicate_line_numbers a)
         = {(k, c). c = occurrences patterns_mismatch results k \<and> 1 < c}"
    using mem by (auto simp: a_def)
  show ?thesis
    using res f e s t l dist dups by (simp add: st0_def st' a_def)
qed

section \<open>Diagnostics: the tallies, duplicates and skipped identifiers\<close>













section \<open>Unparseable identifiers and duplicate keys\<close>

lemma entry_key_pre_post:
  "{k. \<exists>x\<in>set (pre @ e # post). entry_key pats x = Some k}
     = (case entry_key pats e of None \<Rightarrow> {} | Some k \<Rightarrow> {k})
       \<union> {k. \<exists>x\<in>set (pre @ post). entry_key pats x = Some k}"
  by (auto split: option.splits)

lemma load_results_skipped_entry:
  assumes "\<forall>x\<in>set (pre @ e # post). well_formed_entry x" "\<forall>x. \<exists>s. extr x = Inr s"
    "entry_key pats e = None"
  shows "load_results (line_number_by pats) extr (pre @ e # post) d
           = load_results (line_number_by pats) extr (pre @ post) d
       \<and> (\<exists>d'. load_results (line_number_by pats) extr (pre @ e # post) d = Inr d'
             \<and> keys d' = keys d \<union> {k. \<exists>x\<in>set (pre @ post). entry_key pats x = Some k})"
proof -
  have wfpre: "\<forall>x\<in>set pre. well_formed_entry x" and wfe: "well_formed_entry e"
    using assms(1) by simp_all
  have skip: "load_results (line_number_by pats) extr (pre @ e # post) d
           = load_results (line_number_by pats) extr (pre @ post) d"
    by (rule load_results_skip[OF wfpre wfe assms(2,3)])
  obtain d' where "load_results (line_number_by pats) extr (pre @ e # post) d = Inr d'"
    "keys d' = keys d \<union> {k. \<exists>x\<in>set (pre @ e # post). entry_key pats x = Some k}"
    using load_results_returns[OF assms(1,2)] by blast
  then show ?thesis using skip assms(3) unfolding entry_key_pre_post by auto
qed

text \<open>
  Claim C5, as amended. No counter of unparseable identifiers exists in the scripts.
  For a result line (a JSON object whose \<open>custom_id\<close>, if present, is a string) whose
  identifier is absent or matches no pattern: the merging scripts leave the field
  dictionary as it is and go on with the remaining lines, so the result is the one
  obtained without the line, and the keys of the dictionary are exactly the keys
  read from the other lines (and those it held before); the analysis of mismatch.py
  likewise returns normally with \<open>line_numbers\<close> equal to the keys read from the other
  lines.
\<close>

theorem unparseable_identifier_skipped:
  assumes "\<forall>x\<in>set (pre @ e # post). well_formed_entry x"
  shows "(entry_key patterns_merged_results e = None \<longrightarrow>
            load_results extract_line_number_from_custom_id_merged_results
              (extract_text_from_result_merged_results loads) (pre @ e # post) d
            = load_results extract_line_number_from_custom_id_merged_results
                (extract_text_from_result_merged_results loads) (pre @ post) d
          \<and> (\<exists>d'. load_results extract_line_number_from_custom_id_merged_results
                     (extract_text_from_result_merged_results loads) (pre @ e # post) d = Inr d'
                \<and> keys d' = keys d
                    \<union> {k. \<exists>x\<in>set (pre @ post). entry_key patterns_merged_results x = Some k}))
       \<and> (entry_key patterns_instructOutput e = None \<longrightarrow>
            load_results extract_line_number_from_custom_id_instructOutput
              (extract_text_from_result_instructOutput loads) (pre @ e # post) d
            = load_results extract_line_number_from_custom_id_instructOutput
                (extract_text_from_result_instructOutput loads) (pre @ post) d
          \<and> (\<exists>d'. load_results extract_line_number_from_custom_id_instructOutput
                     (extract_text_from_result_instructOutput loads) (pre @ e # post) d = Inr d'
                \<and> keys d' = keys d
                    \<union> {k. \<exists>x\<in>set (pre @ post). entry_key patterns_instructOutput x = Some k}))
       \<and> (entry_key patterns_mismatch e = None \<longrightarrow>
            (\<exists>a. analyze_file_entries loads msg (pre @ e # post) = Inr a
               \<and> line_numbers a
                   = {k. \<exists>x\<in>set (pre @ post). entry_key patterns_mismatch x = Some k}))"
proof -
  have mr: "load_results extract_line_number_from_custom_id_merged_results
              (extract_text_from_result_merged_results loads) (pre @ e # post) d
            = load_results extract_line_number_from_custom_id_merged_results
                (extract_text_from_result_merged_results loads) (pre @ post) d
          \<and> (\<exists>d'. load_results extract_line_number_from_custom_id_merged_results
                     (extract_text_from_result_merged_results loads) (pre @ e # post) d = Inr d'
                \<and> keys d' = keys d
                    \<union> {k. \<exists>x\<in>set (pre @ post). entry_key patterns_merged_results x = Some k})"
    if "entry_key patterns_merged_results e = None"
    unfolding extract_line_number_from_custom_id_merged_results_def
    using load_results_skipped_entry[OF assms, where extr = "extract_text_from_result_merged_results loads"]
      extract_always_returns(1) that
    by blast
  have io: "load_results extract_line_number_from_custom_id_instructOutput
              (extract_text_from_result_instructOutput loads) (pre @ e # post) d
            = load_results extract_line_number_from_custom_id_instructOutput
                (extract_text_from_result_instructOutput loads) (pre @ post) d
          \<and> (\<exists>d'. load_results extract_line_number_from_custom_id_instructOutput
                     (extract_text_from_result_instructOutput loads) (pre @ e # post) d = Inr d'
                \<and> keys d' = keys d
                    \<union> {k. \<exists>x\<in>set (pre @ post). entry_key patterns_instructOutput x = Some k})"
    if "entry_key patterns_instructOutput e = None"
    unfolding extract_line_number_from_custom_id_instructOutput_def
    using load_results_skipped_entry[OF assms, where extr = "extract_text_from_result_instructOutput loads"]
      extract_always_returns(3) that
    by blast
  have mm: "\<exists>a. analyze_file_entries loads msg (pre @ e # post) = Inr a
               \<and> line_numbers a
                   = {k. \<exists>x\<in>set (pre @ post). entry_key patterns_mismatch x = Some k}"
    if none: "entry_key patterns_mismatch e = None"
  proof -
    obtain a where "analyze_file_entries loads msg (pre @ e # post) = Inr a"
      "line_numbers a = {k. \<exists>x\<in>set (pre @ e # post). entry_key patterns_mismatch x = Some k}"
      using analyze_file_entries_summary[OF assms, of loads msg] by blast
    then show ?thesis using none unfolding entry_key_pre_post by auto
  qed
  show ?thesis using mr io mm by blast
qed

theorem unparseable_identifier_skipped_witness:
  "entry_key patterns_merged_results
        (JObj [(''result'', JObj [(''message'', JObj [(''content'',
                   JArr [JObj [(''text'', JStr ''lost'')]])])])]) = None
   \<and> load_results extract_line_number_from_custom_id_merged_results
        (extract_text_from_result_merged_results json_loads)
        ([result_envelope ''a_input_line_1'' ''one'']
           @ JObj [(''result'', JObj [(''message'', JObj [(''content'',
                   JArr [JObj [(''text'', JStr ''lost'')]])])])]
           # [result_envelope ''a_input_line_2'' ''two'']) []
      = Inr [(1, ''one''), (2, ''two'')]
   \<and> load_results extract_line_number_from_custom_id_merged_results
        (extract_text_from_result_merged_results json_loads)
        ([result_envelope ''a_input_line_1'' ''one''] @ [result_envelope ''a_input_line_2'' ''two'']) []
      = Inr [(1, ''one''), (2, ''two'')]"
proof -
  have wf: "\<forall>x\<in>set ([result_envelope ''a_input_line_1'' ''one'']
              @ JObj [(''result'', JObj [(''message'', JObj [(''content'',
                   JArr [JObj [(''text'', JStr ''lost'')]])])])]
              # [result_envelope ''a_input_line_2'' ''two'']). well_formed_entry x"
    by (simp add: well_formed_entry_def result_envelope_def)
  have none: "entry_key patterns_merged_results
        (JObj [(''result'', JObj [(''message'', JObj [(''content'',
                   JArr [JObj [(''text'', JStr ''lost'')]])])])]) = None"
    by (simp add: entry_key_def entry_id_def member_def)
  have ev: "load_results extract_line_number_from_custom_id_merged_results
        (extract_text_from_result_merged_results json_loads)
        ([result_envelope ''a_input_line_1'' ''one''] @ [result_envelope ''a_input_line_2'' ''two'']) []
      = Inr [(1, ''one''), (2, ''two'')]"
    by code_simp
  show ?thesis
    using unparseable_identifier_skipped[OF wf, of json_loads "[]"] wf none ev by simp
qed

theorem no_unparseable_counter_counterexample:
  "load_results extract_line_number_from_custom_id_merged_results
     (extract_text_from_result_merged_results json_loads)
     [JObj [(''result'', JObj [(''message'', JObj [(''content'',
         JArr [JObj [(''text'', JStr ''lost'')]])])])]]
     [(1, ''one'')]
   = Inr [(1, ''one'')]
   \<and> analyze_file_entries json_loads (\<lambda>e. [])
       [JObj [(''response'', JObj [(''body'', JObj [(''choices'',
           JArr [JObj [(''message'', JObj [(''content'', JStr ''lost'')])]])])])]]
     = Inr \<lparr> total_entries = 1, line_numbers = {}, custom_ids = [JStr ''unknown_0''],
            successful_extractions = 1, failed_extractions = 0, empty_extractions = 0,
            error_entries = [], duplicate_line_numbers = [], entries_by_line = [] \<rparr>"
  by code_simp

text \<open>
  Claim C4, as amended. Duplicate keys are recorded only by the analysis of
  mismatch.py and only within one file; the merging scripts record nothing. For
  files of result lines (JSON objects whose \<open>custom_id\<close>, if present, is a string):
  in the dictionary that merged\_results.py or instructOutput.py builds from the
  files in order, a key holds the text extracted from the last entry, in file and
  line order, that carries the key; and the analysis of each single file lists in
  \<open>duplicate_line_numbers\<close>, once each, exactly the pairs of a key that occurs more
  than once in that file and the number of its occurrences there.
\<close>

theorem later_occurrence_wins_duplicates_per_file:
  assumes "\<forall>f\<in>set files. \<forall>x\<in>set f. well_formed_entry x"
  shows "(concat files = pre @ e # post \<and> entry_key patterns_merged_results e = Some k
            \<and> (\<forall>x\<in>set post. entry_key patterns_merged_results x \<noteq> Some k)
          \<longrightarrow> (\<exists>d. load_files extract_line_number_from_custom_id_merged_results
                       (extract_text_from_result_merged_results loads) files [] = Inr d
                  \<and> map_of d k = Some (text_of (extract_text_from_result_merged_results loads) e)))
       \<and> (concat files = pre @ e # post \<and> entry_key patterns_instructOutput e = Some k
            \<and> (\<forall>x\<in>set post. entry_key patterns_instructOutput x \<noteq> Some k)
          \<longrightarrow> (\<exists>d. load_files extract_line_number_from_custom_id_instructOutput
                       (extract_text_from_result_instructOutput loads) files [] = Inr d
                  \<and> map_of d k = Some (text_of (extract_text_from_result_instructOutput loads) e)))
       \<and> (\<forall>f\<in>set files. \<exists>a. analyze_file_entries loads msg f = Inr a
             \<and> distinct (map fst (duplicate_line_numbers a))
             \<and> set (duplicate_line_numbers a)
                 = {(j, c). c = occurrences patterns_mismatch f j \<and> 1 < c})"
proof (intro conjI impI ballI)
  assume h: "concat files = pre @ e # post \<and> entry_key patterns_merged_results e = Some k
            \<and> (\<forall>x\<in>set post. entry_key patterns_merged_results x \<noteq> Some k)"
  have wf: "\<forall>x\<in>set (pre @ e # post). well_formed_entry x"
    using assms h by (metis set_concat UN_iff)
  have tot: "\<forall>x. \<exists>s. extract_text_from_result_merged_results loads x = Inr s"
    using extract_always_returns(1) by blast
  show "\<exists>d. load_files extract_line_number_from_custom_id_merged_results
                       (extract_text_from_result_merged_results loads) files [] = Inr d
                  \<and> map_of d k = Some (text_of (extract_text_from_result_merged_results loads) e)"
    unfolding extract_line_number_from_custom_id_merged_results_def
    using load_files_concat[OF assms tot, of patterns_merged_results "[]"]
      load_results_last_wins[OF wf tot, of patterns_merged_results k "[]"] h
    by simp
next
  assume h: "concat files = pre @ e # post \<and> entry_key patterns_instructOutput e = Some k
            \<and> (\<forall>x\<in>set post. entry_key patterns_instructOutput x \<noteq> Some k)"
  have wf: "\<forall>x\<in>set (pre @ e # post). well_formed_entry x"
    using assms h by (metis set_concat UN_iff)
  have tot: "\<forall>x. \<exists>s. extract_text_from_result_instructOutput loads x = Inr s"
    using extract_always_returns(3) by blast
  show "\<exists>d. load_files extract_line_number_from_custom_id_instructOutput
                       (extract_text_from_result_instructOutput loads) files [] = Inr d
                  \<and> map_of d k = Some (text_of (extract_text_from_result_instructOutput loads) e)"
    unfolding extract_line_number_from_custom_id_instructOutput_def
    using load_files_concat[OF assms tot, of patterns_instructOutput "[]"]
      load_results_last_wins[OF wf tot, of patterns_instructOutput k "[]"] h
    by simp
next
  fix f assume "f \<in> set files"
  then have wf: "\<forall>x\<in>set f. well_formed_entry x" using assms by blast
  show "\<exists>a. analyze_file_entries loads msg f = Inr a
             \<and> distinct (map fst (duplicate_line_numbers a))
             \<and> set (duplicate_line_numbers a)
                 = {(j, c). c = occurrences patterns_mismatch f j \<and> 1 < c}"
    using analyze_file_entries_summary[OF wf, of loads msg] by blast
qed

theorem later_occurrence_wins_duplicates_per_file_witness:
  "concat [[result_envelope ''a_instruction_line_7'' ''first''],
              [result_envelope ''a_instruction_line_7'' ''second'']]
       = [result_envelope ''a_instruction_line_7'' ''first'']
         @ result_envelope ''a_instruction_line_7'' ''second'' # []
   \<and> entry_key patterns_merged_results (result_envelope ''a_instruction_line_7'' ''second'') = Some 7
   \<and> text_of (extract_text_from_result_merged_results json_loads)
        (result_envelope ''a_instruction_line_7'' ''second'') = ''second''
   \<and> (\<exists>d. load_files extract_line_number_from_custom_id_merged_results
              (extract_text_from_result_merged_results json_loads)
              [[result_envelope ''a_instruction_line_7'' ''first''],
               [result_envelope ''a_instruction_line_7'' ''second'']] [] = Inr d
          \<and> map_of d 7 = Some ''second'')"
proof -
  have wf: "\<forall>f\<in>set [[result_envelope ''a_instruction_line_7'' ''first''],
               [result_envelope ''a_instruction_line_7'' ''second'']].
       \<forall>x\<in>set f. well_formed_entry x"
    by (simp add: well_formed_entry_def result_envelope_def)
  have cc: "concat [[result_envelope ''a_instruction_line_7'' ''first''],
              [result_envelope ''a_instruction_line_7'' ''second'']]
       = [result_envelope ''a_instruction_line_7'' ''first'']
         @ result_envelope ''a_instruction_line_7'' ''second'' # []"
    by simp
  have key: "entry_key patterns_merged_results
               (result_envelope ''a_instruction_line_7'' ''second'') = Some 7"
    by code_simp
  have later: "\<forall>x\<in>set []. entry_key patterns_merged_results x \<noteq> Some 7" by simp
  have tx: "text_of (extract_text_from_result_merged_results json_loads)
        (result_envelope ''a_instruction_line_7'' ''second'') = ''second''"
    by code_simp
  show ?thesis
    using later_occurrence_wins_duplicates_per_file[OF wf,
        where pre = "[result_envelope ''a_instruction_line_7'' ''first'']"
          and e = "result_envelope ''a_instruction_line_7'' ''second''"
          and post = "[]" and k = 7 and loads = json_loads]
      wf cc key later tx
    by simp
qed

theorem cross_file_duplicate_not_recorded_counterexample:
  "load_files extract_line_number_from_custom_id_merged_results
     (extract_text_from_result_merged_results json_loads)
     [[result_envelope ''a_instruction_line_7'' ''first''],
      [result_envelope ''a_instruction_line_7'' ''second'']] []
   = Inr [(7, ''second'')]
   \<and> analyze_file_entries json_loads (\<lambda>e. []) [response_envelope ''a_line_7'' ''first'']
     = Inr \<lparr> total_entries = 1, line_numbers = {7}, custom_ids = [JStr ''a_line_7''],
            successful_extractions = 1, failed_extractions = 0, empty_extractions = 0,
            error_entries = [], duplicate_line_numbers = [],
            entries_by_line = [(7, JStr ''a_line_7'', ''first'', 5, 0)] \<rparr>
   \<and> analyze_file_entries json_loads (\<lambda>e. []) [response_envelope ''a_line_7'' ''second'']
     = Inr \<lparr> total_entries = 1, line_numbers = {7}, custom_ids = [JStr ''a_line_7''],
            successful_extractions = 1, failed_extractions = 0, empty_extractions = 0,
            error_entries = [], duplicate_line_numbers = [],
            entries_by_line = [(7, JStr ''a_line_7'', ''second'', 6, 0)] \<rparr>
   \<and> (case find_mismatches json_loads (\<lambda>e. [])
              [[response_envelope ''a_line_7'' ''first''],
               [response_envelope ''a_line_7'' ''second'']] [] of
         Inl x \<Rightarrow> None
       | Inr r \<Rightarrow> Some (map duplicate_line_numbers (instruction_files r)))
     = Some [[], []]"
  by code_simp

section \<open>The reconciler\<close>

lemma finite_key_set: "finite (key_set pats files)"
proof -
  have "key_set pats files \<subseteq> (\<lambda>e. the (entry_key pats e)) ` set (concat files)"
    by (force simp: key_set_def)
  then show ?thesis by (rule finite_subset) simp
qed

lemma map_exn_analyze:
  assumes "\<forall>f\<in>set files. \<forall>e\<in>set f. well_formed_entry e"
  shows "\<exists>as. map_exn (analyze_file_entries loads msg) files = Inr as
           \<and> \<Union> (set (map line_numbers as)) = key_set patterns_mismatch files"
proof -
  have "\<forall>f\<in>set files. \<exists>a. analyze_file_entries loads msg f = Inr a
          \<and> line_numbers a = {k. \<exists>e\<in>set f. entry_key patterns_mismatch e = Some k}"
  proof
    fix f assume "f \<in> set files"
    then have wf: "\<forall>e\<in>set f. well_formed_entry e" using assms by blast
    show "\<exists>a. analyze_file_entries loads msg f = Inr a
          \<and> line_numbers a = {k. \<exists>e\<in>set f. entry_key patterns_mismatch e = Some k}"
      using analyze_file_entries_summary[OF wf, of loads msg] by blast
  qed
  then obtain as where as: "map_exn (analyze_file_entries loads msg) files = Inr as"
    "list_all2 (\<lambda>f a. line_numbers a = {k. \<exists>e\<in>set f. entry_key patterns_mismatch e = Some k})
       files as"
    using map_exn_all2[of files "analyze_file_entries loads msg"
        "\<lambda>f a. line_numbers a = {k. \<exists>e\<in>set f. entry_key patterns_mismatch e = Some k}"]
    by blast
  have "\<Union> (set (map line_numbers as)) = key_set patterns_mismatch files"
    using as(2)
  proof (induction files as rule: list_all2_induct)
    case Nil
    then show ?case by (simp add: key_set_def)
  next
    case (Cons f fs a as)
    then show ?case by (auto simp: key_set_def)
  qed
  then show ?thesis using as(1) by blast
qed

text \<open>
  Claim C2, as amended. The reconciler \<open>find_mismatches\<close> takes two field streams,
  instruction and output. For files of result lines (JSON objects whose \<open>custom_id\<close>,
  if present, is a string), with \<open>I\<close> and \<open>O\<close> the sets of keys read from the
  instruction and the output files, it returns a report in which the number of
  common lines is the size of \<open>I \<inter> O\<close> and the two only-in lists, kept apart, are
  \<open>I - (I \<inter> O)\<close> and \<open>O - (I \<inter> O)\<close> in ascending order. For three streams the scripts
  compute the intersection only: the merge of merged\_results.py produces as many
  entries as the three key sets have keys in common, and reports no only-in sets.
\<close>

theorem reconciler_two_streams:
  assumes "\<forall>f\<in>set instruction_results. \<forall>e\<in>set f. well_formed_entry e"
    "\<forall>f\<in>set output_results. \<forall>e\<in>set f. well_formed_entry e"
  shows "(\<exists>r. find_mismatches loads msg instruction_results output_results = Inr r
          \<and> common_lines r
              = card (key_set patterns_mismatch instruction_results
                        \<inter> key_set patterns_mismatch output_results)
          \<and> missing_in_output r
              = sorted_list_of_set (key_set patterns_mismatch instruction_results
                  - (key_set patterns_mismatch instruction_results
                       \<inter> key_set patterns_mismatch output_results))
          \<and> missing_in_instruction r
              = sorted_list_of_set (key_set patterns_mismatch output_results
                  - (key_set patterns_mismatch instruction_results
                       \<inter> key_set patterns_mismatch output_results))
          \<and> set (missing_in_output r)
              = key_set patterns_mismatch instruction_results
                  - (key_set patterns_mismatch instruction_results
                       \<inter> key_set patterns_mismatch output_results)
          \<and> set (missing_in_instruction r)
              = key_set patterns_mismatch output_results
                  - (key_set patterns_mismatch instruction_results
                       \<inter> key_set patterns_mismatch output_results)
          \<and> total_instruction_lines r = card (key_set patterns_mismatch instruction_results)
          \<and> total_output_lines r = card (key_set patterns_mismatch output_results))
       \<and> (keys ins \<inter> keys inp \<inter> keys out \<noteq> {}
            \<longrightarrow> (\<exists>recs. merge_results_merged_results ins inp out = Inr (Some recs)
                   \<and> length recs = card (keys ins \<inter> keys inp \<inter> keys out)))"
proof -
  define KI where "KI = key_set patterns_mismatch instruction_results"
  define KO where "KO = key_set patterns_mismatch output_results"
  obtain ia where ia: "map_exn (analyze_file_entries loads msg) instruction_results = Inr ia"
    "\<Union> (set (map line_numbers ia)) = KI"
    using map_exn_analyze[OF assms(1)] unfolding KI_def by blast
  obtain oa where oa: "map_exn (analyze_file_entries loads msg) output_results = Inr oa"
    "\<Union> (set (map line_numbers oa)) = KO"
    using map_exn_analyze[OF assms(2)] unfolding KO_def by blast
  have fin: "finite KI" "finite KO" unfolding KI_def KO_def by (rule finite_key_set)+
  have diff: "KI - (KI \<inter> KO) = KI - KO" "KO - (KI \<inter> KO) = KO - KI" by auto
  obtain r where r: "find_mismatches loads msg instruction_results output_results = Inr r"
    "common_lines r = card (KI \<inter> KO)"
    "missing_in_output r = sorted_list_of_set (KI - KO)"
    "missing_in_instruction r = sorted_list_of_set (KO - KI)"
    "total_instruction_lines r = card KI" "total_output_lines r = card KO"
    using ia oa by (simp add: find_mismatches_def Let_def del: set_map)
  have "set (missing_in_output r) = KI - KO" "set (missing_in_instruction r) = KO - KI"
    using r(3,4) fin by simp_all
  then have first: "\<exists>r. find_mismatches loads msg instruction_results output_results = Inr r
          \<and> common_lines r = card (KI \<inter> KO)
          \<and> missing_in_output r = sorted_list_of_set (KI - (KI \<inter> KO))
          \<and> missing_in_instruction r = sorted_list_of_set (KO - (KI \<inter> KO))
          \<and> set (missing_in_output r) = KI - (KI \<inter> KO)
          \<and> set (missing_in_instruction r) = KO - (KI \<inter> KO)
          \<and> total_instruction_lines r = card KI
          \<and> total_output_lines r = card KO"
    using r unfolding diff by blast
  have second: "keys ins \<inter> keys inp \<inter> keys out \<noteq> {}
            \<longrightarrow> (\<exists>recs. merge_results_merged_results ins inp out = Inr (Some recs)
                   \<and> length recs = card (keys ins \<inter> keys inp \<inter> keys out))"
    using merge_three_common[of ins inp out] by blast
  show ?thesis using first second unfolding KI_def KO_def by blast
qed

theorem reconciler_two_streams_witness:
  "(case find_mismatches json_loads (\<lambda>e. [])
              [[JObj [(''custom_id'', JStr ''a_line_1'')], JObj [(''custom_id'', JStr ''a_line_2'')],
                JObj [(''custom_id'', JStr ''a_line_3'')], JObj [(''custom_id'', JStr ''a_line_5'')]]]
              [[JObj [(''custom_id'', JStr ''b_line_1'')], JObj [(''custom_id'', JStr ''b_line_2'')],
                JObj [(''custom_id'', JStr ''b_line_3'')], JObj [(''custom_id'', JStr ''b_line_4'')]]] of
         Inl x \<Rightarrow> None
       | Inr r \<Rightarrow> Some (common_lines r, missing_in_output r, missing_in_instruction r))
     = Some (3, [5], [4])
   \<and> card (key_set patterns_mismatch
              [[JObj [(''custom_id'', JStr ''a_line_1'')], JObj [(''custom_id'', JStr ''a_line_2'')],
                JObj [(''custom_id'', JStr ''a_line_3'')], JObj [(''custom_id'', JStr ''a_line_5'')]]]
            \<inter> key_set patterns_mismatch
              [[JObj [(''custom_id'', JStr ''b_line_1'')], JObj [(''custom_id'', JStr ''b_line_2'')],
                JObj [(''custom_id'', JStr ''b_line_3'')], JObj [(''custom_id'', JStr ''b_line_4'')]]])
     = 3"
proof -
  have wf1: "\<forall>f\<in>set [[JObj [(''custom_id'', JStr ''a_line_1'')], JObj [(''custom_id'', JStr ''a_line_2'')],
                JObj [(''custom_id'', JStr ''a_line_3'')], JObj [(''custom_id'', JStr ''a_line_5'')]]].
       \<forall>e\<in>set f. well_formed_entry e"
    by (simp add: well_formed_entry_def)
  have wf2: "\<forall>f\<in>set [[JObj [(''custom_id'', JStr ''b_line_1'')], JObj [(''custom_id'', JStr ''b_line_2'')],
                JObj [(''custom_id'', JStr ''b_line_3'')], JObj [(''custom_id'', JStr ''b_line_4'')]]].
       \<forall>e\<in>set f. well_formed_entry e"
    by (simp add: well_formed_entry_def)
  have ev: "(case find_mismatches json_loads (\<lambda>e. [])
              [[JObj [(''custom_id'', JStr ''a_line_1'')], JObj [(''custom_id'', JStr ''a_line_2'')],
                JObj [(''custom_id'', JStr ''a_line_3'')], JObj [(''custom_id'', JStr ''a_line_5'')]]]
              [[JObj [(''custom_id'', JStr ''b_line_1'')], JObj [(''custom_id'', JStr ''b_line_2'')],
                JObj [(''custom_id'', JStr ''b_line_3'')], JObj [(''custom_id'', JStr ''b_line_4'')]]] of
         Inl x \<Rightarrow> None
       | Inr r \<Rightarrow> Some (common_lines r, missing_in_output r, missing_in_instruction r))
     = Some (3, [5], [4])"
    by code_simp
  show ?thesis
    using reconciler_two_streams[OF wf1 wf2, of json_loads "\<lambda>e. []"] wf1 wf2 ev
    by (auto split: sum.splits)
qed

theorem three_streams_no_only_in_counterexample:
  "merge_results_merged_results
     [(1, ''i1''), (2, ''i2''), (3, ''i3''), (5, ''i5'')]
     [(1, ''n1''), (2, ''n2''), (3, ''n3'')]
     [(1, ''o1''), (2, ''o2''), (3, ''o3''), (4, ''o4'')]
   = merge_results_merged_results
       [(1, ''i1''), (2, ''i2''), (3, ''i3'')]
       [(1, ''n1''), (2, ''n2''), (3, ''n3'')]
       [(1, ''o1''), (2, ''o2''), (3, ''o3'')]
   \<and> merge_results_merged_results
       [(1, ''i1''), (2, ''i2''), (3, ''i3''), (5, ''i5'')]
       [(1, ''n1''), (2, ''n2''), (3, ''n3'')]
       [(1, ''o1''), (2, ''o2''), (3, ''o3''), (4, ''o4'')]
     = Inr (Some [[(''instruction'', ''i1''), (''input'', ''n1''), (''output'', ''o1'')],
                  [(''instruction'', ''i2''), (''input'', ''n2''), (''output'', ''o2'')],
                  [(''instruction'', ''i3''), (''input'', ''n3''), (''output'', ''o3'')]])
   \<and> keys [(1::int, ''i1''), (2, ''i2''), (3, ''i3''), (5, ''i5'')]
       - (keys [(1::int, ''i1''), (2, ''i2''), (3, ''i3''), (5, ''i5'')]
            \<inter> keys [(1, ''n1''), (2, ''n2''), (3, ''n3'')]
            \<inter> keys [(1, ''o1''), (2, ''o2''), (3, ''o3''), (4, ''o4'')]) = {5}
   \<and> keys [(1::int, ''i1''), (2, ''i2''), (3, ''i3'')]
       - (keys [(1::int, ''i1''), (2, ''i2''), (3, ''i3'')]
            \<inter> keys [(1, ''n1''), (2, ''n2''), (3, ''n3'')]
            \<inter> keys [(1, ''o1''), (2, ''o2''), (3, ''o3'')]) = {}"
  by code_simp

end
